theory Spec2Isabelle
  imports Complex_Main "HOL-Library.Word"
begin

unbundle bit_operations_syntax

section \<open>Pair-wise RMSD (Tools/rmsds.cpp)\<close>

text \<open>
  A shallow embedding of the functions of \<^verbatim>\<open>Tools/rmsds.cpp\<close>: \<^verbatim>\<open>readCoords\<close>,
  \<^verbatim>\<open>centerAtOrigin\<close>, \<^verbatim>\<open>centerTrajectory\<close>, \<^verbatim>\<open>calcRMSD\<close>, \<^verbatim>\<open>rmsds\<close>, \<^verbatim>\<open>ToolOptions::check\<close>
  and \<^verbatim>\<open>main\<close>.

  Conventions.
  \<^item> A \<^verbatim>\<open>double\<close> that holds a coordinate or a sum of products is a \<open>real\<close>: the
    arithmetic is exact, round-off is not modelled. The one place where the source can leave
    the finite numbers on finite inputs, the division by the atom count in \<^verbatim>\<open>calcRMSD\<close>,
    produces a value of the type \<open>double\<close> below, with the IEEE results of a division by zero
    written out.
  \<^item> \<^verbatim>\<open>std::vector::operator[]\<close> does not check its index. An access outside the vector
    is undefined behaviour in the source; the model returns \<open>Inl OutOfRange\<close> there.
  \<^item> Exceptions are values: a function that can throw returns \<open>error + 'a\<close>.
  \<^item> Vector sizes are natural numbers; they are assumed to fit the \<^verbatim>\<open>int\<close> and \<^verbatim>\<open>uint\<close>
    counters that run over them. The 32-bit product in \<^verbatim>\<open>rmsds\<close>, which wraps around for
    frame counts that do fit, is modelled on \<open>32 word\<close>.
  \<^item> \<^verbatim>\<open>dgesvj_\<close> (LAPACK) is a parameter of the model: a function from the 3x3 input matrix
    to the singular values and the \<^verbatim>\<open>info\<close> code it stores.
\<close>

subsection \<open>Data\<close>

type_synonym vDouble = "real list"
type_synonym vMatrix = "vDouble list"

datatype error = OutOfRange | NumericalError string int

datatype double = Finite real | PosInf | NegInf | NaN

text \<open>\<^verbatim>\<open>double / int\<close> with the IEEE results for a zero divisor.\<close>

definition ddiv :: "real \<Rightarrow> int \<Rightarrow> double" where
  "ddiv x n =
     (if n \<noteq> 0 then Finite (x / real_of_int n)
      else if 0 < x then PosInf
      else if x < 0 then NegInf
      else NaN)"

text \<open>\<^verbatim>\<open>sqrt\<close> of \<^verbatim>\<open><cmath>\<close>.\<close>

fun dsqrt :: "double \<Rightarrow> double" where
  "dsqrt (Finite y) = (if y < 0 then NaN else Finite (sqrt y))"
| "dsqrt PosInf = PosInf"
| "dsqrt NegInf = NaN"
| "dsqrt NaN = NaN"

subsection \<open>centerAtOrigin, centerTrajectory\<close>

text \<open>
  \<^verbatim>\<open>for (uint i=0; i<v.size(); i += 3) { c[0] += v[i]; c[1] += v[i+1]; c[2] += v[i+2]; }\<close>

  The three reads of one iteration are at \<open>i\<close>, \<open>i+1\<close>, \<open>i+2\<close>; with \<open>i < v.size()\<close> from the
  loop guard they are all in range exactly when \<open>i + 2 < v.size()\<close>.
\<close>

function centroid_loop :: "vDouble \<Rightarrow> nat \<Rightarrow> real \<times> real \<times> real \<Rightarrow> error + real \<times> real \<times> real" where
  "centroid_loop v i (c0, c1, c2) =
     (if i < length v then
        (if i + 2 < length v then
           centroid_loop v (i + 3) (c0 + v ! i, c1 + v ! (i + 1), c2 + v ! (i + 2))
         else Inl OutOfRange)
      else Inr (c0, c1, c2))"
  by pat_completeness auto
termination
  by (relation "measure (\<lambda>(v, i, c). length v - i)") auto

text \<open>
  \<^verbatim>\<open>for (uint i=0; i<v.size(); i += 3) { v[i] -= c[0]; v[i+1] -= c[1]; v[i+2] -= c[2]; }\<close>
\<close>

function shift_loop :: "vDouble \<Rightarrow> nat \<Rightarrow> real \<times> real \<times> real \<Rightarrow> error + vDouble" where
  "shift_loop v i (c0, c1, c2) =
     (if i < length v then
        (if i + 2 < length v then
           shift_loop (v[i := v ! i - c0, i + 1 := v ! (i + 1) - c1, i + 2 := v ! (i + 2) - c2])
             (i + 3) (c0, c1, c2)
         else Inl OutOfRange)
      else Inr v)"
  by pat_completeness auto
termination
  by (relation "measure (\<lambda>(v, i, c). length v - i)") auto

text \<open>
  \<^verbatim>\<open>for (uint i=0; i<3; ++i) c[i] = 3*c[i]/v.size();\<close> sits between the two loops. For an
  empty vector the quotient is \<^verbatim>\<open>0.0/0\<close>, but then the second loop never reads \<open>c\<close>.
\<close>

definition centerAtOrigin :: "vDouble \<Rightarrow> error + vDouble" where
  "centerAtOrigin v =
     (case centroid_loop v 0 (0, 0, 0) of
        Inl e \<Rightarrow> Inl e
      | Inr (c0, c1, c2) \<Rightarrow>
          shift_loop v 0
            (3 * c0 / real (length v), 3 * c1 / real (length v), 3 * c2 / real (length v)))"

text \<open>\<^verbatim>\<open>for (uint i=0; i<M.size(); ++i) centerAtOrigin(M[i]);\<close>\<close>

function center_loop :: "vMatrix \<Rightarrow> nat \<Rightarrow> error + vMatrix" where
  "center_loop M i =
     (if i < length M then
        (case centerAtOrigin (M ! i) of
           Inl e \<Rightarrow> Inl e
         | Inr v' \<Rightarrow> center_loop (M[i := v']) (i + 1))
      else Inr M)"
  by pat_completeness auto
termination
  by (relation "measure (\<lambda>(M, i). length M - i)") auto

definition centerTrajectory :: "vMatrix \<Rightarrow> error + vMatrix" where
  "centerTrajectory M = center_loop M 0"

subsection \<open>calcRMSD\<close>

text \<open>
  \<^verbatim>\<open>for (int j=0; j<n; j += 3) for (uint i=0; i<3; ++i) {
       ssu[i] += u[j+i] * u[j+i];  ssv[i] += v[j+i] * v[j+i]; }\<close>

  One iteration of the outer loop reads \<open>u\<close> and \<open>v\<close> at \<open>j\<close>, \<open>j+1\<close>, \<open>j+2\<close>. The bound \<open>n\<close>
  is \<^verbatim>\<open>u.size()\<close>; no size of \<open>v\<close> enters the loop guard.
\<close>

type_synonym vec3 = "real \<times> real \<times> real"

function sq_loop :: "vDouble \<Rightarrow> vDouble \<Rightarrow> nat \<Rightarrow> nat \<Rightarrow> vec3 \<times> vec3 \<Rightarrow> error + vec3 \<times> vec3" where
  "sq_loop u v n j ((a0, a1, a2), (b0, b1, b2)) =
     (if j < n then
        (if j + 2 < length u \<and> j + 2 < length v then
           sq_loop u v n (j + 3)
             ((a0 + u ! j * u ! j, a1 + u ! (j + 1) * u ! (j + 1), a2 + u ! (j + 2) * u ! (j + 2)),
              (b0 + v ! j * v ! j, b1 + v ! (j + 1) * v ! (j + 1), b2 + v ! (j + 2) * v ! (j + 2)))
         else Inl OutOfRange)
      else Inr ((a0, a1, a2), (b0, b1, b2)))"
  by pat_completeness auto
termination
  by (relation "measure (\<lambda>(u, v, n, j, ss). n - j)") auto

text \<open>
  \<^verbatim>\<open>dgemm_("N", "T", 3, 3, n, 1.0, u.data(), 3, v.data(), 3, 0.0, R, 3)\<close> (and the
  \<^verbatim>\<open>cblas_dgemm\<close> call with the same arguments): by the BLAS contract \<open>R := A * B\<^sup>T\<close> with
  \<open>A\<close> and \<open>B\<close> the column-major 3 x n matrices stored in \<open>u\<close> and \<open>v\<close> with leading
  dimension 3, so \<open>R[a + 3*b] = \<Sum>k<n. u[3k+a] * v[3k+b]\<close>. The routine reads the
  first \<open>3*n\<close> entries of both arrays.
\<close>

definition cross_covariance :: "nat \<Rightarrow> vDouble \<Rightarrow> vDouble \<Rightarrow> real list" where
  "cross_covariance n u v =
     map (\<lambda>idx. \<Sum>k\<leftarrow>[0..<n]. u ! (3 * k + idx mod 3) * v ! (3 * k + idx div 3)) [0..<9]"

definition dgemm_NT :: "nat \<Rightarrow> vDouble \<Rightarrow> vDouble \<Rightarrow> error + real list" where
  "dgemm_NT n u v =
     (if 3 * n \<le> length u \<and> 3 * n \<le> length v then Inr (cross_covariance n u v)
      else Inl OutOfRange)"

text \<open>
  What \<^verbatim>\<open>calcRMSD\<close> reads of the results of \<^verbatim>\<open>dgesvj_\<close>: the singular values \<open>S[0..2]\<close>
  and \<^verbatim>\<open>info\<close>. The factors the routine also stores are never read.
\<close>

record svd_out =
  S :: "real \<times> real \<times> real"
  info :: int

type_synonym svd_routine = "real list \<Rightarrow> svd_out"

definition squared_norms :: "vec3 \<times> vec3 \<Rightarrow> real" where
  "squared_norms ss = (case ss of ((a0, a1, a2), (b0, b1, b2)) \<Rightarrow> a0 + a1 + a2 + b0 + b1 + b2)"

definition calcRMSD :: "svd_routine \<Rightarrow> vDouble \<Rightarrow> vDouble \<Rightarrow> error + double" where
  "calcRMSD dgesvj u v =
     (case sq_loop u v (length u) 0 ((0, 0, 0), (0, 0, 0)) of
        Inl e \<Rightarrow> Inl e
      | Inr sq \<Rightarrow>
          (let n = length u div 3;
               E0 = squared_norms sq
           in case dgemm_NT n u v of
                Inl e \<Rightarrow> Inl e
              | Inr R \<Rightarrow>
                  (let out = dgesvj R in
                   if info out \<noteq> 0 then
                     Inl (NumericalError ''SVD in AtomicGroup::superposition returned an error'' (info out))
                   else
                     (case S out of (s0, s1, s2) \<Rightarrow>
                        (let ss = s0 + s1 + s2
                         in Inr (dsqrt (ddiv \<bar>E0 - 2 * ss\<bar> (int n))))))))"

subsection \<open>rmsds\<close>

text \<open>
  Modelled from the spec: the matrix class \<^verbatim>\<open>RealMatrix\<close> is declared outside the sources at
  hand. A matrix has its two dimensions and its cells; a new matrix holds zero in every cell
  (the builder leaves "the diagonal at zero" without ever writing it), and \<^verbatim>\<open>R(j, i) = x\<close>
  stores \<open>x\<close> in the cell of row \<open>j\<close>, column \<open>i\<close>.
\<close>

record RealMatrix =
  rows :: nat
  cols :: nat
  cell :: "nat \<Rightarrow> nat \<Rightarrow> double"

text \<open>Modelled from the spec: the constructor \<^verbatim>\<open>RealMatrix R(n, n)\<close>, every cell zero.\<close>

definition new_matrix :: "nat \<Rightarrow> nat \<Rightarrow> RealMatrix" where
  "new_matrix r c = \<lparr>rows = r, cols = c, cell = (\<lambda>j i. Finite 0)\<rparr>"

text \<open>Modelled from the spec: the assignment \<^verbatim>\<open>R(j, i) = x\<close> to one cell.\<close>

definition set_cell :: "RealMatrix \<Rightarrow> nat \<Rightarrow> nat \<Rightarrow> double \<Rightarrow> RealMatrix" where
  "set_cell R j i x = R\<lparr>cell := (cell R)(j := (cell R j)(i := x))\<rparr>"

text \<open>
  Modelled from the spec: the progress classes (\<^verbatim>\<open>ProgressCounter\<close>, \<^verbatim>\<open>EstimatingCounter\<close>,
  \<^verbatim>\<open>PercentTrigger\<close>) are declared outside the sources at hand. The counter knows the total
  it was built with and the fraction of its trigger, and \<^verbatim>\<open>update()\<close> advances the completed
  count by one unit.
\<close>

record ProgressCounter =
  expected :: nat
  trigger_fraction :: real
  completed :: nat

text \<open>Modelled from the spec: \<^verbatim>\<open>slayer.update()\<close>, one more completed unit.\<close>

definition update :: "ProgressCounter \<Rightarrow> ProgressCounter" where
  "update p = p\<lparr>completed := completed p + 1\<rparr>"

text \<open>
  \<^verbatim>\<open>uint total = floor(n * (n-1) / 2.0);\<close> with \<^verbatim>\<open>uint n\<close>: the product is a 32-bit unsigned
  product, converted to \<^verbatim>\<open>double\<close> (exactly) and halved.
\<close>

definition total_pairs :: "32 word \<Rightarrow> nat" where
  "total_pairs n = unat (n * (n - 1)) div 2"

text \<open>
  The state of the pair loop: the matrix, the progress counter, and (a ghost field, not in
  the source) the list of index pairs \<open>(j, i)\<close> for which \<^verbatim>\<open>calcRMSD(M[j], M[i])\<close> has been
  evaluated, latest first.
\<close>

record builder =
  R :: RealMatrix
  slayer :: ProgressCounter
  evaluated :: "(nat \<times> nat) list"

text \<open>
  \<^verbatim>\<open>for (uint i=0; i<j; ++i) { R(j, i) = calcRMSD(M[j], M[i]); R(i, j) = R(j, i); slayer.update(); }\<close>
  with \<open>i < j < M.size()\<close> from the loop guards.
\<close>

function inner_loop :: "svd_routine \<Rightarrow> vMatrix \<Rightarrow> nat \<Rightarrow> nat \<Rightarrow> builder \<Rightarrow> error + builder" where
  "inner_loop dgesvj M j i st =
     (if i < j then
        (case calcRMSD dgesvj (M ! j) (M ! i) of
           Inl e \<Rightarrow> Inl e
         | Inr d \<Rightarrow>
             (let R1 = set_cell (R st) j i d;
                  R2 = set_cell R1 i j (cell R1 j i)
              in inner_loop dgesvj M j (i + 1)
                   (st\<lparr>R := R2, slayer := update (slayer st), evaluated := (j, i) # evaluated st\<rparr>)))
      else Inr st)"
  by pat_completeness auto
termination
  by (relation "measure (\<lambda>(dgesvj, M, j, i, st). j - i)") auto

text \<open>\<^verbatim>\<open>for (uint j=1; j<n; ++j) ...\<close>\<close>

function outer_loop :: "svd_routine \<Rightarrow> vMatrix \<Rightarrow> nat \<Rightarrow> nat \<Rightarrow> builder \<Rightarrow> error + builder" where
  "outer_loop dgesvj M n j st =
     (if j < n then
        (case inner_loop dgesvj M j 0 st of
           Inl e \<Rightarrow> Inl e
         | Inr st' \<Rightarrow> outer_loop dgesvj M n (j + 1) st')
      else Inr st)"
  by pat_completeness auto
termination
  by (relation "measure (\<lambda>(dgesvj, M, n, j, st). n - j)") auto

text \<open>
  \<^verbatim>\<open>rmsds\<close> returns the matrix; the model returns the whole final state, so that the
  progress counter can be observed as well. The counter is built with \<^verbatim>\<open>total\<close> and a
  \<^verbatim>\<open>PercentTrigger\<close> of \<open>0.1\<close>; \<^verbatim>\<open>start()\<close> and \<^verbatim>\<open>finish()\<close> do not change the count.
\<close>

definition rmsds :: "svd_routine \<Rightarrow> vMatrix \<Rightarrow> error + builder" where
  "rmsds dgesvj M =
     (let n = (of_nat (length M) :: 32 word);
          total = total_pairs n
      in outer_loop dgesvj M (unat n) 1
           \<lparr>R = new_matrix (unat n) (unat n),
            slayer = \<lparr>expected = total, trigger_fraction = 1 / 10, completed = 0\<rparr>,
            evaluated = []\<rparr>)"

subsection \<open>readCoords\<close>

text \<open>
  The collaborators of \<^verbatim>\<open>readCoords\<close> are outside the sources at hand. An \<^verbatim>\<open>AtomicGroup\<close> is
  the ordered list of its atoms; a trajectory has a frame count and, for every frame index
  and atom, the coordinates that \<^verbatim>\<open>readFrame(j); updateGroupCoords(model)\<close> store in the atom.
\<close>

type_synonym atom = nat
type_synonym AtomicGroup = "atom list"

record Traj =
  nframes :: nat
  frame_coords :: "nat \<Rightarrow> atom \<Rightarrow> vec3"

text \<open>
  \<^verbatim>\<open>for (uint i=0; i<n; ++i) { GCoord c = model[i]->coords();
       M[j][i*3] = c.x(); M[j][i*3+1] = c.y(); M[j][i*3+2] = c.z(); }\<close>

  Row \<open>j\<close> has \<open>3*n\<close> entries, so the three writes are in range.
\<close>

function atom_loop :: "Traj \<Rightarrow> AtomicGroup \<Rightarrow> nat \<Rightarrow> nat \<Rightarrow> vDouble \<Rightarrow> vDouble" where
  "atom_loop traj model j i row =
     (if i < length model then
        (case frame_coords traj j (model ! i) of
           (x, y, z) \<Rightarrow>
             atom_loop traj model j (i + 1) (row[i * 3 := x, i * 3 + 1 := y, i * 3 + 2 := z]))
      else row)"
  by pat_completeness auto
termination
  by (relation "measure (\<lambda>(traj, model, j, i, row). length model - i)") auto

function frame_loop :: "Traj \<Rightarrow> AtomicGroup \<Rightarrow> nat \<Rightarrow> vMatrix \<Rightarrow> vMatrix" where
  "frame_loop traj model j M =
     (if j < nframes traj then
        frame_loop traj model (j + 1) (M[j := atom_loop traj model j 0 (M ! j)])
      else M)"
  by pat_completeness auto
termination
  by (relation "measure (\<lambda>(traj, model, j, M). nframes traj - j)") auto

definition readCoords :: "AtomicGroup \<Rightarrow> Traj \<Rightarrow> vMatrix" where
  "readCoords model traj =
     (let l = nframes traj;
          n = length model
      in frame_loop traj model 0 (replicate l (replicate (3 * n) 0)))"

subsection \<open>Options and main\<close>

record ToolOptions =
  noop :: bool
  skip1 :: "32 word"
  skip2 :: "32 word"
  range1 :: string
  range2 :: string
  model1 :: string
  traj1 :: string
  model2 :: string
  traj2 :: string
  sel1 :: string
  sel2 :: string

text \<open>
  \<^verbatim>\<open>check\<close> reads the number of occurrences of the positional options in the variables map:
  \<^verbatim>\<open>return( ! ( (m.count("model1") && m.count("traj1")) && !(m.count("model2") ^ m.count("traj2"))) );\<close>
  A true result rejects the command line.
\<close>

definition check :: "(string \<Rightarrow> nat) \<Rightarrow> bool" where
  "check m =
     (\<not> ((m ''model1'' \<noteq> 0 \<and> m ''traj1'' \<noteq> 0) \<and> \<not> ((m ''model2'' XOR m ''traj2'') \<noteq> 0)))"

definition matrix_precision :: nat where
  "matrix_precision = 2"

definition cache_memory_fraction_warning :: real where
  "cache_memory_fraction_warning = 66 / 100"

subsection \<open>The output stream\<close>

text \<open>
  \<^verbatim>\<open>main\<close> writes the matrix with \<^verbatim>\<open>cout << setprecision(matrix_precision) << M\<close>. Of the state
  of the stream it sets the precision and nothing else: \<^verbatim>\<open>std::fixed\<close> and
  \<^verbatim>\<open>std::scientific\<close> occur nowhere in the source, so a number is written in the default
  notation of the C++ stream, the \<^verbatim>\<open>%g\<close> conversion at precision \<open>P\<close> (1 if the precision is 0).
  With \<open>X\<close> the decimal exponent of the number rounded to \<open>P\<close> significant digits: for
  \<open>-4 \<le> X < P\<close> the digits are written in positional notation, otherwise as
  \<^verbatim>\<open>d.ddde+XX\<close> with at least two exponent digits; trailing zeros of the fraction and a
  decimal point without fraction are dropped. Zero is written as \<^verbatim>\<open>0\<close>.
\<close>

definition digit :: "nat \<Rightarrow> char" where
  "digit d = ''0123456789'' ! d"

function decimal :: "nat \<Rightarrow> string" where
  "decimal n = (if n < 10 then [digit n] else decimal (n div 10) @ [digit (n mod 10)])"
  by pat_completeness auto
termination
  by (relation "measure id") auto

text \<open>Rounding of a non-negative number to the nearest integer, ties to even.\<close>

definition half_even :: "real \<Rightarrow> nat" where
  "half_even x =
     (let f = nat \<lfloor>x\<rfloor>; d = x - real f
      in if d < 1 / 2 then f else if 1 / 2 < d then f + 1 else if even f then f else f + 1)"

definition pow10 :: "int \<Rightarrow> real" where
  "pow10 k = (if 0 \<le> k then 10 ^ nat k else 1 / 10 ^ nat (- k))"

definition strip_zeros :: "string \<Rightarrow> string" where
  "strip_zeros s = rev (dropWhile (\<lambda>c. c = CHR ''0'') (rev s))"

text \<open>The fraction digits without trailing zeros, after a decimal point if any are left.\<close>

definition fraction :: "string \<Rightarrow> string" where
  "fraction ds = (let f = strip_zeros ds in if f = [] then [] else CHR ''.'' # f)"

definition exponent_text :: "int \<Rightarrow> string" where
  "exponent_text X =
     ''e'' @ (if X < 0 then ''-'' else ''+'') @ (if \<bar>X\<bar> < 10 then ''0'' else []) @ decimal (nat \<bar>X\<bar>)"

text \<open>A positive number in the default notation at precision \<open>p\<close>.\<close>

definition general_positive :: "nat \<Rightarrow> real \<Rightarrow> string" where
  "general_positive p x =
     (let P = (if p = 0 then 1 else p);
          e0 = \<lfloor>log 10 x\<rfloor>;
          m0 = half_even (x / pow10 (e0 - int P + 1));
          X = (if m0 = 10 ^ P then e0 + 1 else e0);
          ds = decimal (if m0 = 10 ^ P then 10 ^ (P - 1) else m0)
      in if - 4 \<le> X \<and> X < int P then
           (if X < 0 then ''0'' @ fraction (replicate (nat (- X - 1)) (CHR ''0'') @ ds)
            else take (nat X + 1) ds @ fraction (drop (nat X + 1) ds))
         else take 1 ds @ fraction (drop 1 ds) @ exponent_text X)"

text \<open>\<^verbatim>\<open>os << x\<close> for a \<^verbatim>\<open>double\<close> in the default notation at precision \<open>p\<close>.\<close>

definition general_format :: "nat \<Rightarrow> double \<Rightarrow> string" where
  "general_format p d =
     (case d of
        Finite x \<Rightarrow>
          if x = 0 then ''0''
          else if x < 0 then ''-'' @ general_positive p (- x)
          else general_positive p x
      | PosInf \<Rightarrow> ''inf''
      | NegInf \<Rightarrow> ''-inf''
      | NaN \<Rightarrow> ''nan'')"

text \<open>
  Modelled from the spec: the stream output of a \<^verbatim>\<open>RealMatrix\<close> (\<^verbatim>\<open>operator<<\<close> of the matrix
  class) is outside the sources at hand. The spec gives the layout: N rows of N
  whitespace-separated real values, one row per line. The values of a row are separated by
  single blanks.
\<close>

fun join :: "string list \<Rightarrow> string" where
  "join [] = []"
| "join [w] = w"
| "join (w # ws) = w @ '' '' @ join ws"

text \<open>
  Modelled from the spec: row \<open>j\<close> of the output, one value for every column. Every value
  goes through the stream as \<^verbatim>\<open>main\<close> has set it up, that is through \<open>general_format\<close> at the
  precision of the stream.
\<close>

definition matrix_row :: "nat \<Rightarrow> RealMatrix \<Rightarrow> nat \<Rightarrow> string" where
  "matrix_row prec A j = join (map (\<lambda>i. general_format prec (cell A j i)) [0..<cols A])"

text \<open>Modelled from the spec: the output of the matrix, one line for every row.\<close>

definition matrix_lines :: "nat \<Rightarrow> RealMatrix \<Rightarrow> string list" where
  "matrix_lines prec A = map (matrix_row prec A) [0..<rows A]"

text \<open>
  Modelled from the spec: a value "formatted to a fixed decimal precision" of \<open>p\<close> decimal
  places, which is what the stream would write under \<^verbatim>\<open>std::fixed\<close>: the number rounded to
  \<open>p\<close> decimals, all \<open>p\<close> of them written.
\<close>

definition fixed_positive :: "nat \<Rightarrow> real \<Rightarrow> string" where
  "fixed_positive p x =
     (let m = half_even (x * 10 ^ p);
          f = decimal (m mod 10 ^ p)
      in decimal (m div 10 ^ p) @
         (if p = 0 then [] else ''.'' @ replicate (p - length f) (CHR ''0'') @ f))"

text \<open>Modelled from the spec: a matrix cell at a fixed decimal precision.\<close>

definition fixed_format :: "nat \<Rightarrow> double \<Rightarrow> string" where
  "fixed_format p d =
     (case d of
        Finite x \<Rightarrow> if x < 0 then ''-'' @ fixed_positive p (- x) else fixed_positive p x
      | PosInf \<Rightarrow> ''inf''
      | NegInf \<Rightarrow> ''-inf''
      | NaN \<Rightarrow> ''nan'')"



text \<open>
  The collaborators of \<^verbatim>\<open>main\<close>: the library calls that build the system, the trajectory and
  the selection from the option strings, and the SVD routine.
\<close>

record environment =
  createSystem :: "string \<Rightarrow> AtomicGroup"
  createTrajectory :: "string \<Rightarrow> AtomicGroup \<Rightarrow> Traj"
  selectAtoms :: "AtomicGroup \<Rightarrow> string \<Rightarrow> AtomicGroup"
  dgesvj_routine :: svd_routine

text \<open>
  The end of a run: \<^verbatim>\<open>exit(-1)\<close> after a rejected command line, an exception that leaves
  \<^verbatim>\<open>main\<close>, or the normal end with the matrix, the progress counter, the lines written to
  \<^verbatim>\<open>cout\<close> and the warnings issued by the tool. No statement of the source issues a warning.
\<close>

record run =
  matrix :: RealMatrix
  progress :: ProgressCounter
  cout :: "string list"
  warnings :: "string list"

datatype outcome = Rejected | Uncaught error | Completed run

text \<open>
  \<open>header\<close> is the result of \<^verbatim>\<open>invocationHeader(argc, argv)\<close>, \<open>m\<close> and \<open>topts\<close> are the
  variables map and the option values that \<^verbatim>\<open>options.parse\<close> leaves behind. Of the parse
  itself only the verdict of \<^verbatim>\<open>ToolOptions::check\<close> is part of the sources; a command line
  that \<^verbatim>\<open>check\<close> rejects ends the run with \<^verbatim>\<open>exit(-1)\<close>.
\<close>

definition main :: "environment \<Rightarrow> string \<Rightarrow> (string \<Rightarrow> nat) \<Rightarrow> ToolOptions \<Rightarrow> outcome" where
  "main env header m topts =
     (if check m then Rejected
      else
        (let model = createSystem env (model1 topts);
             traj = createTrajectory env (traj1 topts) model;
             subset = selectAtoms env model (sel1 topts);
             T = readCoords subset traj
         in case centerTrajectory T of
              Inl e \<Rightarrow> Uncaught e
            | Inr T' \<Rightarrow>
                (case rmsds (dgesvj_routine env) T' of
                   Inl e \<Rightarrow> Uncaught e
                 | Inr st \<Rightarrow>
                     Completed
                       \<lparr>matrix = R st,
                        progress = slayer st,
                        cout = (if \<not> noop topts
                                then (''# '' @ header) # matrix_lines matrix_precision (R st)
                                else []),
                        warnings = []\<rparr>)))"



subsection \<open>Quantities of the specification\<close>

text \<open>
  For a frame vector of \<open>n\<close> atoms: the sum of the coordinates along axis \<open>a\<close>, and the sum
  of the squared norms of the atoms.
\<close>

definition axis_sum :: "nat \<Rightarrow> vDouble \<Rightarrow> nat \<Rightarrow> real" where
  "axis_sum n u a = (\<Sum>k\<leftarrow>[0..<n]. u ! (3 * k + a))"

definition centered :: "nat \<Rightarrow> vDouble \<Rightarrow> bool" where
  "centered n u = (axis_sum n u 0 = 0 \<and> axis_sum n u 1 = 0 \<and> axis_sum n u 2 = 0)"

definition sqnorm :: "nat \<Rightarrow> vDouble \<Rightarrow> real" where
  "sqnorm n u =
     (\<Sum>k\<leftarrow>[0..<n]. u ! (3 * k) * u ! (3 * k) + u ! (3 * k + 1) * u ! (3 * k + 1)
                    + u ! (3 * k + 2) * u ! (3 * k + 2))"

text \<open>
  Two atoms at \<open>(1,0,0)\<close> and \<open>(-1,0,0)\<close>: a centred frame. Compared with itself its
  cross-covariance matrix is \<open>diag(2,0,0)\<close>, with singular values \<open>2, 0, 0\<close>.
\<close>

definition dumbbell :: vDouble where
  "dumbbell = [1, 0, 0, -1, 0, 0]"

text \<open>
  An SVD routine that meets the singular values of \<open>diag(2,0,0)\<close> up to a relative error of
  \<open>5 * 10\<^sup>-\<^sup>1\<^sup>0\<close>, from above.
\<close>

definition rounded_up_svd :: svd_routine where
  "rounded_up_svd A = \<lparr>S = (2 + 1 / 10 ^ 9, 0, 0), info = 0\<rparr>"

text \<open>An SVD routine that returns zero singular values and reports success.\<close>

definition zero_svd :: svd_routine where
  "zero_svd A = \<lparr>S = (0, 0, 0), info = 0\<rparr>"

subsection \<open>The element accesses of calcRMSD\<close>

text \<open>
  The reads of \<^verbatim>\<open>calcRMSD\<close>, in the order of the source, each with the vector it goes to.
  One iteration of the accumulation loop reads \<^verbatim>\<open>u[j+i]\<close> and \<^verbatim>\<open>v[j+i]\<close> for \<open>i = 0, 1, 2\<close>;
  the matrix product reads the first \<open>3 * (u.size() / 3)\<close> entries of both. Only the size
  of \<open>u\<close> decides which indices are read.
\<close>

datatype operand = Arg_u | Arg_v

function sq_reads :: "nat \<Rightarrow> nat \<Rightarrow> (operand \<times> nat) list" where
  "sq_reads n j =
     (if j < n then
        [(Arg_u, j), (Arg_v, j), (Arg_u, j + 1), (Arg_v, j + 1), (Arg_u, j + 2), (Arg_v, j + 2)]
          @ sq_reads n (j + 3)
      else [])"
  by pat_completeness auto
termination
  by (relation "measure (\<lambda>(n, j). n - j)") auto

definition gemm_reads :: "nat \<Rightarrow> (operand \<times> nat) list" where
  "gemm_reads n = concat (map (\<lambda>i. [(Arg_u, i), (Arg_v, i)]) [0..<3 * n])"

definition calcRMSD_reads :: "nat \<Rightarrow> (operand \<times> nat) list" where
  "calcRMSD_reads size_u = sq_reads size_u 0 @ gemm_reads (size_u div 3)"

fun in_range :: "vDouble \<Rightarrow> vDouble \<Rightarrow> operand \<times> nat \<Rightarrow> bool" where
  "in_range u v (Arg_u, i) = (i < length u)"
| "in_range u v (Arg_v, i) = (i < length v)"

text \<open>
  An SVD routine that is exact on diagonal matrices: the singular values of a diagonal matrix
  are the absolute values of its diagonal entries (stored here in the order of the diagonal).
\<close>

definition diagonal_svd :: svd_routine where
  "diagonal_svd A = \<lparr>S = (\<bar>A ! 0\<bar>, \<bar>A ! 4\<bar>, \<bar>A ! 8\<bar>), info = 0\<rparr>"


definition scenario_centered :: vMatrix where
  "scenario_centered =
     [[- (1 / 2), 0, 0, 1 / 2, 0, 0], [1 / 2, 0, 0, - (1 / 2), 0, 0], [- (1 / 2), 0, 0, 1 / 2, 0, 0]]"

text \<open>The row that \<^verbatim>\<open>readCoords\<close> stores for frame \<open>j\<close>: the coordinates of the atoms, in order.\<close>

definition flat_frame :: "Traj \<Rightarrow> AtomicGroup \<Rightarrow> nat \<Rightarrow> vDouble" where
  "flat_frame traj model j =
     concat (map (\<lambda>i. case frame_coords traj j (model ! i) of (x, y, z) \<Rightarrow> [x, y, z]) [0..<length model])"



text \<open>The variables map of a command line with a model and a trajectory.\<close>

definition one_trajectory :: "string \<Rightarrow> nat" where
  "one_trajectory name = (if name = ''model1'' \<or> name = ''traj1'' then 1 else 0)"

definition default_options :: ToolOptions where
  "default_options =
     \<lparr>noop = False, skip1 = 0, skip2 = 0, range1 = [], range2 = [],
      model1 = ''model.pdb'', traj1 = ''simulation.dcd'', model2 = [], traj2 = [],
      sel1 = ''name == 'CA' '', sel2 = ''name == 'CA' ''\<rparr>"

text \<open>
  Modelled from the spec: the byte estimate of the coordinate cache, frames x atoms x 3 x 8,
  which no statement of the source computes.
\<close>

definition cache_estimate :: "nat \<Rightarrow> nat \<Rightarrow> nat" where
  "cache_estimate frames atoms = frames * atoms * 3 * 8"

text \<open>
  A large run: 100000 frames of 30000 selected atoms, all at the origin, with an SVD routine
  that reports success.
\<close>

definition large_traj :: Traj where
  "large_traj = \<lparr>nframes = 100000, frame_coords = (\<lambda>j a. (0, 0, 0))\<rparr>"

definition large_env :: environment where
  "large_env =
     \<lparr>createSystem = (\<lambda>name. [0..<30000]),
      createTrajectory = (\<lambda>name model. large_traj),
      selectAtoms = (\<lambda>model sel. model),
      dgesvj_routine = zero_svd\<rparr>"

text \<open>
  A second command line for the same model, trajectory and selection: a second system is
  named, frames are skipped and ranges are given.
\<close>

definition two_trajectories :: "string \<Rightarrow> nat" where
  "two_trajectories name =
     (if name = ''model1'' \<or> name = ''traj1'' \<or> name = ''model2'' \<or> name = ''traj2'' then 1 else 0)"



subsection \<open>Singular values\<close>

text \<open>
  The mathematical notion behind \<^verbatim>\<open>dgesvj_\<close>, for a 3x3 matrix stored column by column:
  \<open>s\<close> holds singular values of \<open>A\<close> when \<open>A = P * diag(s) * Q\<^sup>T\<close> for orthogonal \<open>P\<close>, \<open>Q\<close> and
  non-negative \<open>s\<close>. The routine is exact on \<open>A\<close> when it reports success and stores such
  values.
\<close>

definition entry :: "real list \<Rightarrow> nat \<Rightarrow> nat \<Rightarrow> real" where
  "entry A a b = A ! (a + 3 * b)"

definition orthogonal3 :: "real list \<Rightarrow> bool" where
  "orthogonal3 Q \<longleftrightarrow>
     (\<forall>i<3. \<forall>j<3. (\<Sum>k<3. entry Q k i * entry Q k j) = (if i = j then 1 else 0)) \<and>
     (\<forall>i<3. \<forall>j<3. (\<Sum>k<3. entry Q i k * entry Q j k) = (if i = j then 1 else 0))"

definition sv :: "vec3 \<Rightarrow> nat \<Rightarrow> real" where
  "sv s k = (case s of (s0, s1, s2) \<Rightarrow> if k = 0 then s0 else if k = 1 then s1 else s2)"

definition singular_values :: "real list \<Rightarrow> vec3 \<Rightarrow> bool" where
  "singular_values A s \<longleftrightarrow>
     (\<forall>k<3. 0 \<le> sv s k) \<and>
     (\<exists>P Q. orthogonal3 P \<and> orthogonal3 Q \<and>
        (\<forall>a<3. \<forall>b<3. entry A a b = (\<Sum>k<3. entry P a k * sv s k * entry Q b k)))"

definition exact_svd :: "svd_routine \<Rightarrow> real list \<Rightarrow> bool" where
  "exact_svd dgesvj A \<longleftrightarrow> info (dgesvj A) = 0 \<and> singular_values A (S (dgesvj A))"

text \<open>
  The dumbbell along the y-axis, and an SVD routine that is exact on matrices with at most
  one non-zero entry: the absolute value of that entry is the only non-zero singular value.
\<close>

definition dumbbell_y :: vDouble where
  "dumbbell_y = [0, 1, 0, 0, -1, 0]"

definition single_entry_svd :: svd_routine where
  "single_entry_svd A = \<lparr>S = (sum_list (map abs A), 0, 0), info = 0\<rparr>"

declare centroid_loop.simps [simp del] shift_loop.simps [simp del] center_loop.simps [simp del]
  sq_loop.simps [simp del] inner_loop.simps [simp del] outer_loop.simps [simp del]
  atom_loop.simps [simp del] frame_loop.simps [simp del] sq_reads.simps [simp del]
  decimal.simps [simp del]

section \<open>Properties\<close>

subsection \<open>The kernel calcRMSD\<close>

lemma dvd3_step: "3 dvd (j::nat) \<Longrightarrow> 3 dvd n \<Longrightarrow> j < n \<Longrightarrow> j + 3 \<le> n"
  by (auto elim!: dvdE)

text \<open>
  The accumulation loop of \<open>calcRMSD\<close> stays in range exactly when the length of \<open>u\<close> is a
  multiple of three and \<open>v\<close> is at least as long.
\<close>

lemma sq_loop_ok_iff:
  "3 dvd j \<Longrightarrow> (sq_loop u v (length u) j ss \<noteq> Inl OutOfRange) \<longleftrightarrow>
     (length u \<le> j \<or> (3 dvd length u \<and> length u \<le> length v))"
proof (induction u v "length u" j ss rule: sq_loop.induct)
  case (1 u v j a0 a1 a2 b0 b1 b2)
  show ?case
  proof (cases "j < length u")
    case False
    then show ?thesis by (simp add: sq_loop.simps)
  next
    case lt: True
    show ?thesis
    proof (cases "j + 2 < length u \<and> j + 2 < length v")
      case inb: True
      have d3: "3 dvd (j + 3)" using "1.prems" by simp
      have "length u \<le> j + 3 \<longleftrightarrow> length u = j + 3" using inb by auto
      moreover have "length u = j + 3 \<Longrightarrow> 3 dvd length u \<and> length u \<le> length v"
        using inb d3 by auto
      ultimately show ?thesis
        using "1.hyps"[OF lt inb d3] lt inb by (subst sq_loop.simps) auto
    next
      case oob: False
      have "\<not> (3 dvd length u \<and> length u \<le> length v)"
        using dvd3_step[OF "1.prems" _ lt] oob by auto
      with lt oob show ?thesis by (subst sq_loop.simps) auto
    qed
  qed
qed

lemma sq_loop_value:
  "m \<le> N \<Longrightarrow> 3 * N \<le> length u \<Longrightarrow> 3 * N \<le> length v \<Longrightarrow>
   sq_loop u v (3 * N) (3 * m) ((a0, a1, a2), (b0, b1, b2)) =
     Inr ((a0 + (\<Sum>k\<leftarrow>[m..<N]. u ! (3 * k) * u ! (3 * k)),
           a1 + (\<Sum>k\<leftarrow>[m..<N]. u ! (3 * k + 1) * u ! (3 * k + 1)),
           a2 + (\<Sum>k\<leftarrow>[m..<N]. u ! (3 * k + 2) * u ! (3 * k + 2))),
          (b0 + (\<Sum>k\<leftarrow>[m..<N]. v ! (3 * k) * v ! (3 * k)),
           b1 + (\<Sum>k\<leftarrow>[m..<N]. v ! (3 * k + 1) * v ! (3 * k + 1)),
           b2 + (\<Sum>k\<leftarrow>[m..<N]. v ! (3 * k + 2) * v ! (3 * k + 2))))"
proof (induction "N - m" arbitrary: m a0 a1 a2 b0 b1 b2)
  case 0
  then have "m = N" by simp
  then show ?case by (simp add: sq_loop.simps)
next
  case (Suc d)
  then have lt: "m < N" and d: "d = N - Suc m" by auto
  have s: "3 * m + 3 = 3 * Suc m" by simp
  have inb: "3 * m + 2 < length u" "3 * m + 2 < length v"
    using lt Suc.prems by auto
  show ?case
    using lt inb Suc.hyps(1)[OF d, of _ _ _ _ _ _] Suc.prems
    apply (subst sq_loop.simps)
    apply (simp only: s)
    apply (simp add: upt_conv_Cons[of m N] add.assoc)
    done
qed

lemma sum_list_add3:
  "(\<Sum>k\<leftarrow>xs. f k + g k + h k) = (\<Sum>k\<leftarrow>xs. f k) + (\<Sum>k\<leftarrow>xs. g k) + (\<Sum>k\<leftarrow>xs. (h k :: real))"
  by (induction xs) auto

lemma sq_loop_start:
  assumes "length u = 3 * n" "3 * n \<le> length v"
  shows "\<exists>sq. sq_loop u v (length u) 0 ((0, 0, 0), (0, 0, 0)) = Inr sq \<and>
           squared_norms sq = sqnorm n u + sqnorm n v"
proof -
  have "sq_loop u v (3 * n) (3 * 0) ((0, 0, 0), (0, 0, 0)) =
     Inr ((0 + (\<Sum>k\<leftarrow>[0..<n]. u ! (3 * k) * u ! (3 * k)),
           0 + (\<Sum>k\<leftarrow>[0..<n]. u ! (3 * k + 1) * u ! (3 * k + 1)),
           0 + (\<Sum>k\<leftarrow>[0..<n]. u ! (3 * k + 2) * u ! (3 * k + 2))),
          (0 + (\<Sum>k\<leftarrow>[0..<n]. v ! (3 * k) * v ! (3 * k)),
           0 + (\<Sum>k\<leftarrow>[0..<n]. v ! (3 * k + 1) * v ! (3 * k + 1)),
           0 + (\<Sum>k\<leftarrow>[0..<n]. v ! (3 * k + 2) * v ! (3 * k + 2))))"
    by (rule sq_loop_value) (use assms in auto)
  then show ?thesis
    using assms by (simp add: squared_norms_def sqnorm_def sum_list_add3)
qed

text \<open>
  The value of \<open>calcRMSD\<close> on a first argument of \<open>n\<close> atoms and a second argument that is
  long enough.
\<close>

lemma calcRMSD_eq:
  assumes "length u = 3 * n" "3 * n \<le> length v"
  shows "calcRMSD dgesvj u v =
     (if info (dgesvj (cross_covariance n u v)) \<noteq> 0 then
        Inl (NumericalError ''SVD in AtomicGroup::superposition returned an error''
               (info (dgesvj (cross_covariance n u v))))
      else Inr (dsqrt (ddiv \<bar>sqnorm n u + sqnorm n v
            - 2 * (fst (S (dgesvj (cross_covariance n u v)))
                 + fst (snd (S (dgesvj (cross_covariance n u v))))
                 + snd (snd (S (dgesvj (cross_covariance n u v)))))\<bar> (int n))))"
proof -
  obtain sq where sq: "sq_loop u v (length u) 0 ((0, 0, 0), (0, 0, 0)) = Inr sq"
      "squared_norms sq = sqnorm n u + sqnorm n v"
    using sq_loop_start[OF assms] by blast
  have n: "length u div 3 = n" using assms by simp
  show ?thesis
    unfolding calcRMSD_def sq n Let_def dgemm_NT_def
    using assms by (simp add: sq split: prod.splits)
qed

lemma cross_covariance_nth:
  "a < 3 \<Longrightarrow> b < 3 \<Longrightarrow>
   cross_covariance n u v ! (a + 3 * b) = (\<Sum>k\<leftarrow>[0..<n]. u ! (3 * k + a) * v ! (3 * k + b))"
  unfolding cross_covariance_def by (subst nth_map) auto

lemma dumbbell_facts:
  "length dumbbell = 3 * 2" "centered 2 dumbbell" "sqnorm 2 dumbbell = 2"
  by (simp_all add: dumbbell_def centered_def axis_sum_def sqnorm_def upt_rec)

lemma cross_covariance_Nil: "cross_covariance 0 u v = replicate 9 0"
  by (simp add: cross_covariance_def map_replicate_const)

text \<open>
  Claim C3, as stated: for an atom count of zero \<open>calcRMSD\<close> fails with an
  \<^verbatim>\<open>InputError\<close> instead of returning a value. The source has no such check: on empty
  vectors both loops are skipped, the routine is run on the zero matrix, and with zero
  singular values the quotient \<^verbatim>\<open>0.0/0\<close> is returned through \<^verbatim>\<open>sqrt\<close>: a NaN.
\<close>

theorem calcRMSD_no_atoms_counterexample:
  "calcRMSD zero_svd [] [] = Inr NaN"
  using calcRMSD_eq[of "[]" 0 "[]" zero_svd]
  by (simp add: zero_svd_def sqnorm_def ddiv_def)

text \<open>
  Claim C3, amended: for an atom count of zero \<open>calcRMSD\<close> checks nothing about its input.
  It runs the SVD routine on the zero matrix; if the routine reports \<open>info \<noteq> 0\<close> the
  \<^verbatim>\<open>NumericalError\<close> with that code is thrown, otherwise the result of the division by
  \<open>n = 0\<close> is returned: NaN when the stored singular values sum up to zero, infinity
  otherwise.
\<close>

theorem calcRMSD_no_atoms:
  "calcRMSD dgesvj [] v =
     (if info (dgesvj (replicate 9 0)) \<noteq> 0 then
        Inl (NumericalError ''SVD in AtomicGroup::superposition returned an error''
               (info (dgesvj (replicate 9 0))))
      else (case S (dgesvj (replicate 9 0)) of
              (s0, s1, s2) \<Rightarrow> if s0 + s1 + s2 = 0 then Inr NaN else Inr PosInf))"
proof -
  have "calcRMSD dgesvj [] v =
     (if info (dgesvj (replicate 9 0)) \<noteq> 0 then
        Inl (NumericalError ''SVD in AtomicGroup::superposition returned an error''
               (info (dgesvj (replicate 9 0))))
      else Inr (dsqrt (ddiv \<bar>sqnorm 0 [] + sqnorm 0 v
            - 2 * (fst (S (dgesvj (replicate 9 0)))
                 + fst (snd (S (dgesvj (replicate 9 0))))
                 + snd (snd (S (dgesvj (replicate 9 0)))))\<bar> (int 0))))"
    using calcRMSD_eq[of "[]" 0 v dgesvj]
    by (simp only: cross_covariance_Nil list.size mult_0_right le0)
  then show ?thesis
    by (cases "S (dgesvj (replicate 9 0))") (auto simp add: sqnorm_def ddiv_def)
qed

subsection \<open>Element accesses of calcRMSD\<close>

lemma sq_reads_set:
  "3 dvd j \<Longrightarrow> set (sq_reads n j) = {Arg_u, Arg_v} \<times> {i. j \<le> i \<and> i < 3 * ((n + 2) div 3)}"
proof (induction n j rule: sq_reads.induct)
  case (1 n j)
  show ?case
  proof (cases "j < n")
    case False
    from "1.prems" obtain p where p: "j = 3 * p" by (auto elim: dvdE)
    have "3 * ((n + 2) div 3) \<le> j" using False p by presburger
    then show ?thesis using False by (subst sq_reads.simps) auto
  next
    case True
    have d3: "3 dvd j + 3" using "1.prems" by simp
    from "1.prems" obtain p where p: "j = 3 * p" by (auto elim: dvdE)
    have up: "j + 3 \<le> 3 * ((n + 2) div 3)" using True p by presburger
    have "{i. j \<le> i \<and> i < 3 * ((n + 2) div 3)} = {j, j + 1, j + 2} \<union> {i. j + 3 \<le> i \<and> i < 3 * ((n + 2) div 3)}"
      using up by auto
    then show ?thesis
      using "1.IH"[OF True d3] True by (subst sq_reads.simps) auto
  qed
qed

lemma gemm_reads_set: "set (gemm_reads n) = {Arg_u, Arg_v} \<times> {i. i < 3 * n}"
  by (auto simp: gemm_reads_def)

lemma calcRMSD_reads_set:
  "set (calcRMSD_reads n) = {Arg_u, Arg_v} \<times> {i. i < 3 * ((n + 2) div 3)}"
proof -
  have "3 * (n div 3) \<le> 3 * ((n + 2) div 3)" by presburger
  then show ?thesis
    unfolding calcRMSD_reads_def by (auto simp: sq_reads_set gemm_reads_set)
qed

lemma all_in_range_iff:
  "list_all (in_range u v) (calcRMSD_reads (length u)) \<longleftrightarrow> 3 dvd length u \<and> length u \<le> length v"
proof -
  have "list_all (in_range u v) (calcRMSD_reads (length u)) \<longleftrightarrow>
      (\<forall>i < 3 * ((length u + 2) div 3). i < length u \<and> i < length v)"
    unfolding list_all_iff calcRMSD_reads_set by auto
  also have "\<dots> \<longleftrightarrow> 3 * ((length u + 2) div 3) \<le> length u \<and> 3 * ((length u + 2) div 3) \<le> length v"
    by (metis (no_types, lifting) linorder_not_less order_less_le_trans order_refl)
  also have "\<dots> \<longleftrightarrow> 3 dvd length u \<and> length u \<le> length v"
    by presburger
  finally show ?thesis .
qed

lemma calcRMSD_OutOfRange_iff:
  "calcRMSD dgesvj u v = Inl OutOfRange \<longleftrightarrow> \<not> (3 dvd length u \<and> length u \<le> length v)"
proof (cases "3 dvd length u \<and> length u \<le> length v")
  case True
  then obtain n where n: "length u = 3 * n" by (auto elim: dvdE)
  with True have "3 * n \<le> length v" by simp
  from calcRMSD_eq[OF n this, of dgesvj] True show ?thesis by simp
next
  case False
  have "sq_loop u v (length u) 0 ((0, 0, 0), (0, 0, 0)) = Inl OutOfRange"
    using sq_loop_ok_iff[of 0 u v "((0, 0, 0), (0, 0, 0))"] False by auto
  then show ?thesis using False by (simp add: calcRMSD_def)
qed

lemma sum_list_upt_cong:
  "(\<And>k. k < n \<Longrightarrow> f k = g k) \<Longrightarrow> (\<Sum>k\<leftarrow>[0..<n]. f k) = (\<Sum>k\<leftarrow>[0..<n]. (g k :: real))"
  by (rule arg_cong[where f = sum_list]) (rule map_cong, auto)

lemma sqnorm_take: "3 * n \<le> m \<Longrightarrow> sqnorm n (take m v) = sqnorm n v"
  unfolding sqnorm_def by (rule sum_list_upt_cong) simp

lemma cross_covariance_take:
  assumes "3 * n \<le> m"
  shows "cross_covariance n u (take m v) = cross_covariance n u v"
  unfolding cross_covariance_def
proof (rule map_cong[OF refl], rule sum_list_upt_cong)
  fix idx k
  assume "idx \<in> set [0..<9]" "k < n"
  then have "3 * k + idx div 3 < m" using assms by auto
  then show "u ! (3 * k + idx mod 3) * take m v ! (3 * k + idx div 3) =
             u ! (3 * k + idx mod 3) * v ! (3 * k + idx div 3)"
    by simp
qed

lemma calcRMSD_take:
  assumes "3 dvd length u" "length u \<le> length v"
  shows "calcRMSD dgesvj u v = calcRMSD dgesvj u (take (length u) v)"
proof -
  from assms obtain n where n: "length u = 3 * n" by (auto elim: dvdE)
  have a: "3 * n \<le> length v" using assms n by simp
  have b: "3 * n \<le> length (take (length u) v)" using assms n by simp
  show ?thesis
    unfolding calcRMSD_eq[OF n a] calcRMSD_eq[OF n b]
    by (simp add: n sqnorm_take cross_covariance_take)
qed

text \<open>
  Claim C9, as stated: \<open>calcRMSD\<close> reads \<open>v\<close> at every index at which it reads \<open>u\<close>, the
  indices \<open>0 .. |u|-1\<close>, so all its accesses are in bounds if and only if \<open>|v| \<ge> |u|\<close>.
  The loop advances in steps of three and reads \<open>j\<close>, \<open>j+1\<close>, \<open>j+2\<close> whenever
  \<open>j < |u|\<close>: for \<open>|u| = |v| = 1\<close> it reads index 1 of both vectors, out of range although
  \<open>|v| \<ge> |u|\<close>.
\<close>

theorem calcRMSD_bounds_counterexample:
  "length [1::real] \<le> length [1::real]
   \<and> (Arg_u, 1) \<in> set (calcRMSD_reads (length [1::real]))
   \<and> \<not> list_all (in_range [1] [1]) (calcRMSD_reads (length [1::real]))
   \<and> calcRMSD zero_svd [1] [1] = Inl OutOfRange"
proof -
  have "(Arg_u, 1) \<in> set (calcRMSD_reads (length [1::real]))"
    unfolding calcRMSD_reads_set by simp
  moreover have "\<not> list_all (in_range [1] [1]) (calcRMSD_reads (length [1::real]))"
    unfolding all_in_range_iff by simp
  moreover have "calcRMSD zero_svd [1] [1] = Inl OutOfRange"
    unfolding calcRMSD_OutOfRange_iff by simp
  ultimately show ?thesis by simp
qed

text \<open>
  Claim C9, amended: \<open>calcRMSD\<close> reads \<open>v\<close> at every index at which it reads \<open>u\<close>, the
  indices below \<open>|u|\<close> rounded up to a multiple of three; all its accesses are in bounds if
  and only if \<open>|u|\<close> is a multiple of three and \<open>|v| \<ge> |u|\<close>. For \<open>|u|\<close> a multiple of
  three the indices read are \<open>0 .. |u|-1\<close> and the accesses are in bounds if and only if
  \<open>|v| \<ge> |u|\<close>; under \<open>|u| = |v|\<close> every access of the accumulation loop and of the matrix
  product is in bounds. The lengths are never compared inside \<open>calcRMSD\<close>: a longer \<open>v\<close>
  gives the result of its prefix of length \<open>|u|\<close>.
\<close>

theorem calcRMSD_bounds:
  "((Arg_u, i) \<in> set (calcRMSD_reads (length u)) \<longleftrightarrow> (Arg_v, i) \<in> set (calcRMSD_reads (length u)))
   \<and> ((Arg_u, i) \<in> set (calcRMSD_reads (length u)) \<longleftrightarrow> i < 3 * ((length u + 2) div 3))
   \<and> (list_all (in_range u v) (calcRMSD_reads (length u)) \<longleftrightarrow> 3 dvd length u \<and> length u \<le> length v)
   \<and> (calcRMSD dgesvj u v = Inl OutOfRange \<longleftrightarrow> \<not> list_all (in_range u v) (calcRMSD_reads (length u)))
   \<and> (3 dvd length u \<longrightarrow>
        ((Arg_u, i) \<in> set (calcRMSD_reads (length u)) \<longleftrightarrow> i < length u)
        \<and> (list_all (in_range u v) (calcRMSD_reads (length u)) \<longleftrightarrow> length u \<le> length v))
   \<and> (3 dvd length u \<and> length u = length v \<longrightarrow> list_all (in_range u v) (calcRMSD_reads (length u)))
   \<and> (3 dvd length u \<and> length u \<le> length v \<longrightarrow>
        calcRMSD dgesvj u v = calcRMSD dgesvj u (take (length u) v))"
proof -
  have r: "3 dvd length u \<Longrightarrow> 3 * ((length u + 2) div 3) = length u" by presburger
  have 1: "(Arg_u, i) \<in> set (calcRMSD_reads (length u)) \<longleftrightarrow> (Arg_v, i) \<in> set (calcRMSD_reads (length u))"
    unfolding calcRMSD_reads_set by simp
  have 2: "(Arg_u, i) \<in> set (calcRMSD_reads (length u)) \<longleftrightarrow> i < 3 * ((length u + 2) div 3)"
    unfolding calcRMSD_reads_set by simp
  note 3 = all_in_range_iff[of u v]
  have 4: "calcRMSD dgesvj u v = Inl OutOfRange \<longleftrightarrow> \<not> list_all (in_range u v) (calcRMSD_reads (length u))"
    unfolding all_in_range_iff calcRMSD_OutOfRange_iff ..
  have 5: "3 dvd length u \<longrightarrow>
        ((Arg_u, i) \<in> set (calcRMSD_reads (length u)) \<longleftrightarrow> i < length u)
        \<and> (list_all (in_range u v) (calcRMSD_reads (length u)) \<longleftrightarrow> length u \<le> length v)"
    using 2 3 r by simp
  have 6: "3 dvd length u \<and> length u = length v \<longrightarrow> list_all (in_range u v) (calcRMSD_reads (length u))"
    using 3 by auto
  have 7: "3 dvd length u \<and> length u \<le> length v \<longrightarrow>
        calcRMSD dgesvj u v = calcRMSD dgesvj u (take (length u) v)"
    using calcRMSD_take[of u v dgesvj] by blast
  from 1 2 3 4 5 6 7 show ?thesis by blast
qed

theorem calcRMSD_bounds_witness:
  "list_all (in_range dumbbell (dumbbell @ [5])) (calcRMSD_reads (length dumbbell))
   \<and> calcRMSD zero_svd dumbbell (dumbbell @ [5]) = calcRMSD zero_svd dumbbell dumbbell
   \<and> list_all (in_range dumbbell dumbbell) (calcRMSD_reads (length dumbbell))"
proof -
  have "length dumbbell = 3 * 2" by (simp add: dumbbell_def)
  then have l: "3 dvd length dumbbell" "length dumbbell \<le> length (dumbbell @ [5])"
    "take (length dumbbell) (dumbbell @ [5]) = dumbbell"
    by simp_all
  show ?thesis
    using calcRMSD_bounds[of 0 dumbbell "dumbbell @ [5]" zero_svd]
      calcRMSD_bounds[of 0 dumbbell "dumbbell" zero_svd] l
    by metis
qed

subsection \<open>Centering\<close>

lemma centroid_loop_value:
  "m \<le> N \<Longrightarrow> length v = 3 * N \<Longrightarrow>
   centroid_loop v (3 * m) (c0, c1, c2) =
     Inr (c0 + (\<Sum>k\<leftarrow>[m..<N]. v ! (3 * k)),
          c1 + (\<Sum>k\<leftarrow>[m..<N]. v ! (3 * k + 1)),
          c2 + (\<Sum>k\<leftarrow>[m..<N]. v ! (3 * k + 2)))"
proof (induction "N - m" arbitrary: m c0 c1 c2)
  case 0
  then have "m = N" by simp
  then show ?case using "0.prems" by (simp add: centroid_loop.simps)
next
  case (Suc d)
  then have lt: "m < N" and d: "d = N - Suc m" by auto
  have s: "3 * m + 3 = 3 * Suc m" by simp
  have inb: "3 * m + 2 < length v" using lt Suc.prems by auto
  show ?case
    using lt inb Suc.hyps(1)[OF d, of _ _ _] Suc.prems
    apply (subst centroid_loop.simps)
    apply (simp only: s)
    apply (simp add: upt_conv_Cons[of m N] add.assoc)
    done
qed

lemma shift_loop_value:
  "m \<le> N \<Longrightarrow> length v = 3 * N \<Longrightarrow>
   \<exists>v'. shift_loop v (3 * m) (c0, c1, c2) = Inr v' \<and> length v' = length v
     \<and> (\<forall>k. m \<le> k \<and> k < N \<longrightarrow>
           v' ! (3 * k) = v ! (3 * k) - c0 \<and> v' ! (3 * k + 1) = v ! (3 * k + 1) - c1
           \<and> v' ! (3 * k + 2) = v ! (3 * k + 2) - c2)
     \<and> (\<forall>i<3 * m. v' ! i = v ! i)"
proof (induction "N - m" arbitrary: m v)
  case 0
  then have "m = N" by simp
  then show ?case using "0.prems" by (simp add: shift_loop.simps)
next
  case (Suc d)
  then have lt: "m < N" and d: "d = N - Suc m" by auto
  have s: "3 * m + 3 = 3 * Suc m" by simp
  have inb: "3 * m + 2 < length v" using lt Suc.prems by auto
  define v1 where "v1 = v[3 * m := v ! (3 * m) - c0, 3 * m + 1 := v ! (3 * m + 1) - c1,
                            3 * m + 2 := v ! (3 * m + 2) - c2]"
  have len1: "length v1 = 3 * N" using Suc.prems by (simp add: v1_def)
  have step: "shift_loop v (3 * m) (c0, c1, c2) = shift_loop v1 (3 * Suc m) (c0, c1, c2)"
    using lt inb Suc.prems by (subst shift_loop.simps) (simp only: s v1_def, simp)
  from Suc.hyps(1)[OF d _ len1] lt
  obtain v' where v': "shift_loop v1 (3 * Suc m) (c0, c1, c2) = Inr v'" "length v' = length v1"
     "\<forall>k. Suc m \<le> k \<and> k < N \<longrightarrow>
           v' ! (3 * k) = v1 ! (3 * k) - c0 \<and> v' ! (3 * k + 1) = v1 ! (3 * k + 1) - c1
           \<and> v' ! (3 * k + 2) = v1 ! (3 * k + 2) - c2"
     "\<forall>i<3 * Suc m. v' ! i = v1 ! i"
    by (metis Suc_leI)
  have far: "\<And>i. 3 * Suc m \<le> i \<Longrightarrow> v1 ! i = v ! i"
    by (simp add: v1_def)
  have near: "v1 ! (3 * m) = v ! (3 * m) - c0" "v1 ! (3 * m + 1) = v ! (3 * m + 1) - c1"
     "v1 ! (3 * m + 2) = v ! (3 * m + 2) - c2"
    using inb by (simp_all add: v1_def)
  have low: "\<And>i. i < 3 * m \<Longrightarrow> v1 ! i = v ! i"
    by (simp add: v1_def)
  have A: "\<forall>k. m \<le> k \<and> k < N \<longrightarrow>
           v' ! (3 * k) = v ! (3 * k) - c0 \<and> v' ! (3 * k + 1) = v ! (3 * k + 1) - c1
           \<and> v' ! (3 * k + 2) = v ! (3 * k + 2) - c2"
  proof (intro allI impI)
    fix k assume k: "m \<le> k \<and> k < N"
    show "v' ! (3 * k) = v ! (3 * k) - c0 \<and> v' ! (3 * k + 1) = v ! (3 * k + 1) - c1
           \<and> v' ! (3 * k + 2) = v ! (3 * k + 2) - c2"
    proof (cases "k = m")
      case True
      then show ?thesis using v'(4) near by simp
    next
      case False
      then have "Suc m \<le> k" using k by simp
      then show ?thesis using v'(3) k far by simp
    qed
  qed
  have B: "\<forall>i<3 * m. v' ! i = v ! i" using v'(4) low by simp
  show ?case
    unfolding step using v'(1,2) len1 Suc.prems A B by simp
qed

lemma centerAtOrigin_value:
  assumes "length v = 3 * n"
  shows "\<exists>v'. centerAtOrigin v = Inr v' \<and> length v' = length v
     \<and> (\<forall>k<n. \<forall>a<3. v' ! (3 * k + a) = v ! (3 * k + a) - 3 * axis_sum n v a / real (length v))"
proof -
  have "centroid_loop v (3 * 0) (0, 0, 0) =
     Inr (0 + (\<Sum>k\<leftarrow>[0..<n]. v ! (3 * k)),
          0 + (\<Sum>k\<leftarrow>[0..<n]. v ! (3 * k + 1)),
          0 + (\<Sum>k\<leftarrow>[0..<n]. v ! (3 * k + 2)))"
    by (rule centroid_loop_value) (simp_all add: assms)
  then have c: "centroid_loop v 0 (0, 0, 0) = Inr (axis_sum n v 0, axis_sum n v 1, axis_sum n v 2)"
    unfolding axis_sum_def by (simp only: mult_0_right add_0 add_0_right)
  have "0 \<le> n" by simp
  from shift_loop_value[OF this assms, of "3 * axis_sum n v 0 / real (length v)"
      "3 * axis_sum n v 1 / real (length v)" "3 * axis_sum n v 2 / real (length v)"]
  obtain v' where v': "shift_loop v (3 * 0) (3 * axis_sum n v 0 / real (length v),
         3 * axis_sum n v 1 / real (length v), 3 * axis_sum n v 2 / real (length v)) = Inr v'"
      "length v' = length v"
      "\<forall>k. 0 \<le> k \<and> k < n \<longrightarrow>
           v' ! (3 * k) = v ! (3 * k) - 3 * axis_sum n v 0 / real (length v)
         \<and> v' ! (3 * k + 1) = v ! (3 * k + 1) - 3 * axis_sum n v 1 / real (length v)
         \<and> v' ! (3 * k + 2) = v ! (3 * k + 2) - 3 * axis_sum n v 2 / real (length v)"
    by (elim exE conjE)
  have "\<forall>k<n. \<forall>a<3. v' ! (3 * k + a) = v ! (3 * k + a) - 3 * axis_sum n v a / real (length v)"
  proof (intro allI impI)
    fix k a :: nat assume "k < n" "a < 3"
    then have "a = 0 \<or> a = 1 \<or> a = 2" by auto
    then show "v' ! (3 * k + a) = v ! (3 * k + a) - 3 * axis_sum n v a / real (length v)"
      using v'(3) \<open>k < n\<close> by auto
  qed
  then show ?thesis
    using v'(1,2) by (simp add: centerAtOrigin_def c)
qed

lemma sum_list_shift:
  "(\<Sum>k\<leftarrow>xs. f k - c) = (\<Sum>k\<leftarrow>xs. f k) - real (length xs) * (c::real)"
  by (induction xs) (auto simp: algebra_simps)

lemma axis_sum_cong:
  "(\<And>k. k < n \<Longrightarrow> w ! (3 * k + a) = f k) \<Longrightarrow> axis_sum n w a = (\<Sum>k\<leftarrow>[0..<n]. f k)"
  unfolding axis_sum_def by (rule arg_cong[where f = sum_list]) (rule map_cong, auto)

lemma centerAtOrigin_sums:
  assumes "length v = 3 * n" "0 < n" "centerAtOrigin v = Inr v'" "a < 3"
  shows "axis_sum n v' a = 0"
proof -
  from centerAtOrigin_value[OF assms(1)] assms(3)
  have nth: "\<forall>k<n. \<forall>a<3. v' ! (3 * k + a) = v ! (3 * k + a) - 3 * axis_sum n v a / real (length v)"
    by auto
  have "axis_sum n v' a = (\<Sum>k\<leftarrow>[0..<n]. v ! (3 * k + a) - 3 * axis_sum n v a / real (length v))"
    by (rule axis_sum_cong) (use nth assms(4) in simp)
  also have "\<dots> = axis_sum n v a - real n * (3 * axis_sum n v a / real (length v))"
    by (simp add: sum_list_shift axis_sum_def)
  also have "\<dots> = 0"
    using assms(1,2) by simp
  finally show ?thesis .
qed

lemma center_loop_value:
  "i \<le> length M \<Longrightarrow> (\<forall>k. i \<le> k \<and> k < length M \<longrightarrow> (\<exists>w. centerAtOrigin (M ! k) = Inr w)) \<Longrightarrow>
   \<exists>M'. center_loop M i = Inr M' \<and> length M' = length M
     \<and> (\<forall>k. i \<le> k \<and> k < length M \<longrightarrow> centerAtOrigin (M ! k) = Inr (M' ! k))
     \<and> (\<forall>k<i. M' ! k = M ! k)"
proof (induction "length M - i" arbitrary: i M)
  case 0
  then have "length M = i" by simp
  then show ?case by (subst center_loop.simps) auto
next
  case (Suc d)
  then have lt: "i < length M" by auto
  then obtain w where w: "centerAtOrigin (M ! i) = Inr w" using Suc.prems by auto
  define M1 where "M1 = M[i := w]"
  have len1: "length M1 = length M" by (simp add: M1_def)
  have step: "center_loop M i = center_loop M1 (i + 1)"
    using lt w by (subst center_loop.simps) (simp add: M1_def)
  have d: "d = length M1 - (i + 1)" using Suc.hyps(2) len1 by simp
  have pre: "\<forall>k. i + 1 \<le> k \<and> k < length M1 \<longrightarrow> (\<exists>w. centerAtOrigin (M1 ! k) = Inr w)"
    using Suc.prems(2) by (simp add: M1_def)
  have le1: "i + 1 \<le> length M1" using lt len1 by simp
  from Suc.hyps(1)[OF d le1 pre]
  obtain M' where M': "center_loop M1 (i + 1) = Inr M'" "length M' = length M1"
     "\<forall>k. i + 1 \<le> k \<and> k < length M1 \<longrightarrow> centerAtOrigin (M1 ! k) = Inr (M' ! k)"
     "\<forall>k<i + 1. M' ! k = M1 ! k"
    by blast
  have A: "\<forall>k. i \<le> k \<and> k < length M \<longrightarrow> centerAtOrigin (M ! k) = Inr (M' ! k)"
  proof (intro allI impI)
    fix k assume k: "i \<le> k \<and> k < length M"
    show "centerAtOrigin (M ! k) = Inr (M' ! k)"
    proof (cases "k = i")
      case True
      then show ?thesis using M'(4) w lt by (simp add: M1_def)
    next
      case False
      then show ?thesis using M'(3) k len1 by (simp add: M1_def)
    qed
  qed
  have B: "\<forall>k<i. M' ! k = M ! k" using M'(4) by (simp add: M1_def)
  show ?case unfolding step using M'(1,2) len1 A B by simp
qed

text \<open>
  Claim C6: for frame vectors of length \<open>3*n\<close> with \<open>n > 0\<close>, \<open>centerTrajectory\<close> replaces
  every frame by the result of one call of \<open>centerAtOrigin\<close> on it (in place: the length
  of the trajectory and of every frame is kept); after \<open>centerAtOrigin\<close> the sum of the
  coordinates along each of the three axes is zero in exact arithmetic, the value subtracted
  from every coordinate of an axis being \<open>3 * (axis sum) / length\<close>.
\<close>

theorem centering_zero_sums:
  assumes "\<forall>v \<in> set M. length v = 3 * n" and "0 < n"
  shows "\<exists>M'. centerTrajectory M = Inr M' \<and> length M' = length M
     \<and> (\<forall>i<length M.
           centerAtOrigin (M ! i) = Inr (M' ! i)
         \<and> length (M' ! i) = length (M ! i)
         \<and> (\<forall>a<3. axis_sum n (M' ! i) a = 0)
         \<and> (\<forall>k<n. \<forall>a<3. M' ! i ! (3 * k + a)
               = M ! i ! (3 * k + a) - 3 * axis_sum n (M ! i) a / real (length (M ! i))))"
proof -
  have ok: "\<forall>k. 0 \<le> k \<and> k < length M \<longrightarrow> (\<exists>w. centerAtOrigin (M ! k) = Inr w)"
  proof (intro allI impI)
    fix k assume "0 \<le> k \<and> k < length M"
    then have "length (M ! k) = 3 * n" using assms(1) by simp
    from centerAtOrigin_value[OF this] show "\<exists>w. centerAtOrigin (M ! k) = Inr w" by blast
  qed
  have "0 \<le> length M" by simp
  from center_loop_value[OF this ok]
  obtain M' where M': "center_loop M 0 = Inr M'" "length M' = length M"
     "\<forall>k. 0 \<le> k \<and> k < length M \<longrightarrow> centerAtOrigin (M ! k) = Inr (M' ! k)"
    by blast
  have "\<forall>i<length M.
           centerAtOrigin (M ! i) = Inr (M' ! i)
         \<and> length (M' ! i) = length (M ! i)
         \<and> (\<forall>a<3. axis_sum n (M' ! i) a = 0)
         \<and> (\<forall>k<n. \<forall>a<3. M' ! i ! (3 * k + a)
               = M ! i ! (3 * k + a) - 3 * axis_sum n (M ! i) a / real (length (M ! i)))"
  proof (intro allI impI)
    fix i assume i: "i < length M"
    then have len: "length (M ! i) = 3 * n" using assms(1) by simp
    have c: "centerAtOrigin (M ! i) = Inr (M' ! i)" using M'(3) i by simp
    from centerAtOrigin_value[OF len] c
    have v: "length (M' ! i) = length (M ! i)"
      "\<forall>k<n. \<forall>a<3. M' ! i ! (3 * k + a)
               = M ! i ! (3 * k + a) - 3 * axis_sum n (M ! i) a / real (length (M ! i))"
      by auto
    have z: "\<forall>a<3. axis_sum n (M' ! i) a = 0"
      using centerAtOrigin_sums[OF len assms(2) c] by simp
    show "centerAtOrigin (M ! i) = Inr (M' ! i)
         \<and> length (M' ! i) = length (M ! i)
         \<and> (\<forall>a<3. axis_sum n (M' ! i) a = 0)
         \<and> (\<forall>k<n. \<forall>a<3. M' ! i ! (3 * k + a)
               = M ! i ! (3 * k + a) - 3 * axis_sum n (M ! i) a / real (length (M ! i)))"
      using c v z by blast
  qed
  with M'(1,2) show ?thesis unfolding centerTrajectory_def by blast
qed

theorem centering_zero_sums_witness:
  "centerTrajectory [[0, 0, 0, 2, 4, 6]] = Inr [[-1, -2, -3, 1, 2, 3]]
   \<and> axis_sum 2 [-1, -2, -3, 1, 2, 3] 0 = 0
   \<and> axis_sum 2 [-1, -2, -3, 1, 2, 3] 1 = 0
   \<and> axis_sum 2 [-1, -2, -3, 1, 2, 3] 2 = 0"
proof -
  have h: "\<forall>v \<in> set [[0, 0, 0, 2, 4, 6 :: real]]. length v = 3 * 2" "0 < (2::nat)"
    by simp_all
  have ev: "centerTrajectory [[0, 0, 0, 2, 4, 6]] = Inr [[-1, -2, -3, 1, 2, 3]]"
    by (simp add: centerTrajectory_def center_loop.simps centerAtOrigin_def
        centroid_loop.simps shift_loop.simps)
  from centering_zero_sums[OF h] ev
  have "\<forall>a<3. axis_sum 2 ([[-1, -2, -3, 1, 2, 3]] ! 0) a = 0"
    by auto
  then show ?thesis using ev by simp
qed

subsection \<open>The pair loop of rmsds\<close>

lemma cell_set_cell:
  "cell (set_cell A j i x) a b = (if a = j \<and> b = i then x else cell A a b)"
  "rows (set_cell A j i x) = rows A" "cols (set_cell A j i x) = cols A"
  by (simp_all add: set_cell_def)

lemma inner_loop_inv:
  "i \<le> j \<Longrightarrow> inner_loop dgesvj M j i st = Inr st' \<Longrightarrow>
     evaluated st' = rev (map (Pair j) [i..<j]) @ evaluated st
   \<and> slayer st' = (slayer st)\<lparr>completed := completed (slayer st) + (j - i)\<rparr>
   \<and> rows (R st') = rows (R st) \<and> cols (R st') = cols (R st)
   \<and> (\<forall>b. i \<le> b \<and> b < j \<longrightarrow>
         calcRMSD dgesvj (M ! j) (M ! b) = Inr (cell (R st') j b) \<and> cell (R st') b j = cell (R st') j b)
   \<and> (\<forall>a b. \<not> (a = j \<and> i \<le> b \<and> b < j) \<and> \<not> (b = j \<and> i \<le> a \<and> a < j) \<longrightarrow>
         cell (R st') a b = cell (R st) a b)"
proof (induction "j - i" arbitrary: i st)
  case 0
  then have "i = j" by simp
  then show ?case using "0.prems" by (auto simp add: inner_loop.simps)
next
  case (Suc n)
  then have lt: "i < j" by simp
  from Suc.prems(2) lt obtain d where d: "calcRMSD dgesvj (M ! j) (M ! i) = Inr d"
    by (subst (asm) inner_loop.simps) (auto split: sum.splits)
  define st1 where "st1 = st\<lparr>R := set_cell (set_cell (R st) j i d) i j d,
      slayer := update (slayer st), evaluated := (j, i) # evaluated st\<rparr>"
  have step: "inner_loop dgesvj M j (i + 1) st1 = Inr st'"
    using Suc.prems(2) lt d
    by (subst (asm) inner_loop.simps) (simp add: st1_def Let_def cell_set_cell)
  have n: "n = j - (i + 1)" using Suc.hyps(2) by simp
  have le: "i + 1 \<le> j" using lt by simp
  note ih = Suc.hyps(1)[OF n le step]
  have ev: "evaluated st' = rev (map (Pair j) [i..<j]) @ evaluated st"
    using ih lt by (simp add: st1_def upt_conv_Cons)
  have sl: "slayer st' = (slayer st)\<lparr>completed := completed (slayer st) + (j - i)\<rparr>"
    using ih lt by (simp add: st1_def update_def)
  have dims: "rows (R st') = rows (R st) \<and> cols (R st') = cols (R st)"
    using ih by (simp add: st1_def cell_set_cell)
  have ne: "i \<noteq> j" using lt by simp
  have c1: "cell (R st1) j i = d" "cell (R st1) i j = d"
    using ne by (simp_all add: st1_def cell_set_cell)
  have keepih: "\<forall>a b. \<not> (a = j \<and> i + 1 \<le> b \<and> b < j) \<and> \<not> (b = j \<and> i + 1 \<le> a \<and> a < j) \<longrightarrow>
         cell (R st') a b = cell (R st1) a b"
    using ih by (elim conjE)
  have setih: "\<forall>b. i + 1 \<le> b \<and> b < j \<longrightarrow>
         calcRMSD dgesvj (M ! j) (M ! b) = Inr (cell (R st') j b) \<and> cell (R st') b j = cell (R st') j b"
    using ih by (elim conjE)
  have keep: "\<And>a b. \<not> (a = j \<and> i + 1 \<le> b \<and> b < j) \<Longrightarrow> \<not> (b = j \<and> i + 1 \<le> a \<and> a < j) \<Longrightarrow>
         cell (R st') a b = cell (R st1) a b"
    using keepih by simp
  have i1: "cell (R st') j i = d" using keep[of j i] c1 by simp
  have i2: "cell (R st') i j = d" using keep[of i j] c1 ne by simp
  have A: "\<forall>b. i \<le> b \<and> b < j \<longrightarrow>
         calcRMSD dgesvj (M ! j) (M ! b) = Inr (cell (R st') j b) \<and> cell (R st') b j = cell (R st') j b"
  proof (intro allI impI)
    fix b assume b: "i \<le> b \<and> b < j"
    show "calcRMSD dgesvj (M ! j) (M ! b) = Inr (cell (R st') j b) \<and> cell (R st') b j = cell (R st') j b"
    proof (cases "b = i")
      case True
      then show ?thesis using d i1 i2 by simp
    next
      case False
      then have "i + 1 \<le> b \<and> b < j" using b by simp
      then show ?thesis using setih by simp
    qed
  qed
  have B: "\<forall>a b. \<not> (a = j \<and> i \<le> b \<and> b < j) \<and> \<not> (b = j \<and> i \<le> a \<and> a < j) \<longrightarrow>
         cell (R st') a b = cell (R st) a b"
  proof (intro allI impI)
    fix a b assume ab: "\<not> (a = j \<and> i \<le> b \<and> b < j) \<and> \<not> (b = j \<and> i \<le> a \<and> a < j)"
    then have "cell (R st') a b = cell (R st1) a b" using keep[of a b] by auto
    moreover have "cell (R st1) a b = cell (R st) a b"
      using ab lt by (auto simp add: st1_def cell_set_cell)
    ultimately show "cell (R st') a b = cell (R st) a b" by simp
  qed
  from ev sl dims A B show ?case by (intro conjI) simp_all
qed

lemma inner_loop_total:
  "i \<le> j \<Longrightarrow> (\<forall>b. i \<le> b \<and> b < j \<longrightarrow> (\<exists>d. calcRMSD dgesvj (M ! j) (M ! b) = Inr d)) \<Longrightarrow>
   \<exists>st'. inner_loop dgesvj M j i st = Inr st'"
proof (induction "j - i" arbitrary: i st)
  case 0
  then show ?case by (simp add: inner_loop.simps)
next
  case (Suc n)
  then have lt: "i < j" by simp
  then obtain d where d: "calcRMSD dgesvj (M ! j) (M ! i) = Inr d"
    using Suc.prems(2) by auto
  have n: "n = j - (i + 1)" using Suc.hyps(2) by simp
  have le: "i + 1 \<le> j" using lt by simp
  have pre: "\<forall>b. i + 1 \<le> b \<and> b < j \<longrightarrow> (\<exists>d. calcRMSD dgesvj (M ! j) (M ! b) = Inr d)"
    using Suc.prems(2) by simp
  show ?case
    using Suc.hyps(1)[OF n le pre] lt d
    by (subst inner_loop.simps) (simp add: Let_def)
qed

lemma outer_loop_inv:
  "j0 \<le> n \<Longrightarrow> outer_loop dgesvj M n j0 st = Inr st' \<Longrightarrow>
     evaluated st' = rev (concat (map (\<lambda>j. map (Pair j) [0..<j]) [j0..<n])) @ evaluated st
   \<and> slayer st' = (slayer st)\<lparr>completed := completed (slayer st) + sum_list [j0..<n]\<rparr>
   \<and> rows (R st') = rows (R st) \<and> cols (R st') = cols (R st)
   \<and> (\<forall>a b. j0 \<le> a \<and> a < n \<and> b < a \<longrightarrow>
         calcRMSD dgesvj (M ! a) (M ! b) = Inr (cell (R st') a b) \<and> cell (R st') b a = cell (R st') a b)
   \<and> (\<forall>a b. \<not> (j0 \<le> a \<and> a < n \<and> b < a) \<and> \<not> (j0 \<le> b \<and> b < n \<and> a < b) \<longrightarrow>
         cell (R st') a b = cell (R st) a b)"
proof (induction "n - j0" arbitrary: j0 st)
  case 0
  then have "j0 = n" by simp
  then show ?case using "0.prems" by (auto simp add: outer_loop.simps)
next
  case (Suc k)
  then have lt: "j0 < n" by simp
  from Suc.prems(2) lt obtain st1 where st1: "inner_loop dgesvj M j0 0 st = Inr st1"
    by (subst (asm) outer_loop.simps) (auto split: sum.splits)
  have step: "outer_loop dgesvj M n (j0 + 1) st1 = Inr st'"
    using Suc.prems(2) lt st1 by (subst (asm) outer_loop.simps) simp
  have k: "k = n - (j0 + 1)" using Suc.hyps(2) by simp
  have le: "j0 + 1 \<le> n" using lt by simp
  note ih = Suc.hyps(1)[OF k le step]
  have "0 \<le> j0" by simp
  note inn = inner_loop_inv[OF this st1]
  have ev: "evaluated st' = rev (concat (map (\<lambda>j. map (Pair j) [0..<j]) [j0..<n])) @ evaluated st"
    using ih inn lt by (simp add: upt_conv_Cons)
  have sl: "slayer st' = (slayer st)\<lparr>completed := completed (slayer st) + sum_list [j0..<n]\<rparr>"
    using ih inn lt by (simp add: upt_conv_Cons)
  have dims: "rows (R st') = rows (R st) \<and> cols (R st') = cols (R st)"
    using ih inn by simp
  have keepih: "\<forall>a b. \<not> (j0 + 1 \<le> a \<and> a < n \<and> b < a) \<and> \<not> (j0 + 1 \<le> b \<and> b < n \<and> a < b) \<longrightarrow>
         cell (R st') a b = cell (R st1) a b"
    using ih by (elim conjE)
  have setih: "\<forall>a b. j0 + 1 \<le> a \<and> a < n \<and> b < a \<longrightarrow>
         calcRMSD dgesvj (M ! a) (M ! b) = Inr (cell (R st') a b) \<and> cell (R st') b a = cell (R st') a b"
    using ih by (elim conjE)
  have keep: "\<And>a b. \<not> (j0 + 1 \<le> a \<and> a < n \<and> b < a) \<Longrightarrow> \<not> (j0 + 1 \<le> b \<and> b < n \<and> a < b) \<Longrightarrow>
         cell (R st') a b = cell (R st1) a b"
    using keepih by simp
  have row0: "\<forall>b. 0 \<le> b \<and> b < j0 \<longrightarrow>
         calcRMSD dgesvj (M ! j0) (M ! b) = Inr (cell (R st1) j0 b) \<and> cell (R st1) b j0 = cell (R st1) j0 b"
    using inn by (elim conjE)
  have keep0: "\<forall>a b. \<not> (a = j0 \<and> 0 \<le> b \<and> b < j0) \<and> \<not> (b = j0 \<and> 0 \<le> a \<and> a < j0) \<longrightarrow>
         cell (R st1) a b = cell (R st) a b"
    using inn by (elim conjE)
  have row: "\<And>b. b < j0 \<Longrightarrow>
      calcRMSD dgesvj (M ! j0) (M ! b) = Inr (cell (R st1) j0 b) \<and> cell (R st1) b j0 = cell (R st1) j0 b"
    using row0 by simp
  have keep1: "\<And>a b. \<not> (a = j0 \<and> b < j0) \<Longrightarrow> \<not> (b = j0 \<and> a < j0) \<Longrightarrow>
         cell (R st1) a b = cell (R st) a b"
    using keep0 by simp
  have A: "\<forall>a b. j0 \<le> a \<and> a < n \<and> b < a \<longrightarrow>
         calcRMSD dgesvj (M ! a) (M ! b) = Inr (cell (R st') a b) \<and> cell (R st') b a = cell (R st') a b"
  proof (intro allI impI)
    fix a b assume ab: "j0 \<le> a \<and> a < n \<and> b < a"
    show "calcRMSD dgesvj (M ! a) (M ! b) = Inr (cell (R st') a b) \<and> cell (R st') b a = cell (R st') a b"
    proof (cases "a = j0")
      case True
      have "cell (R st') j0 b = cell (R st1) j0 b" using keep[of j0 b] ab True by simp
      moreover have "cell (R st') b j0 = cell (R st1) b j0" using keep[of b j0] ab True by simp
      ultimately show ?thesis using row[of b] ab True by simp
    next
      case False
      then have "j0 + 1 \<le> a \<and> a < n \<and> b < a" using ab by simp
      then show ?thesis using setih by simp
    qed
  qed
  have B: "\<forall>a b. \<not> (j0 \<le> a \<and> a < n \<and> b < a) \<and> \<not> (j0 \<le> b \<and> b < n \<and> a < b) \<longrightarrow>
         cell (R st') a b = cell (R st) a b"
  proof (intro allI impI)
    fix a b assume ab: "\<not> (j0 \<le> a \<and> a < n \<and> b < a) \<and> \<not> (j0 \<le> b \<and> b < n \<and> a < b)"
    have "cell (R st') a b = cell (R st1) a b" using keep[of a b] ab by auto
    moreover have "cell (R st1) a b = cell (R st) a b" using keep1[of a b] ab lt by auto
    ultimately show "cell (R st') a b = cell (R st) a b" by simp
  qed
  from ev sl dims A B show ?case by (intro conjI) simp_all
qed

lemma outer_loop_total:
  "j0 \<le> n \<Longrightarrow> (\<forall>a b. j0 \<le> a \<and> a < n \<and> b < a \<longrightarrow> (\<exists>d. calcRMSD dgesvj (M ! a) (M ! b) = Inr d)) \<Longrightarrow>
   \<exists>st'. outer_loop dgesvj M n j0 st = Inr st'"
proof (induction "n - j0" arbitrary: j0 st)
  case 0
  then show ?case by (simp add: outer_loop.simps)
next
  case (Suc k)
  then have lt: "j0 < n" by simp
  have "\<forall>b. 0 \<le> b \<and> b < j0 \<longrightarrow> (\<exists>d. calcRMSD dgesvj (M ! j0) (M ! b) = Inr d)"
    using Suc.prems(2) lt by simp
  from inner_loop_total[OF _ this, of st]
  obtain st1 where st1: "inner_loop dgesvj M j0 0 st = Inr st1" by auto
  have k: "k = n - (j0 + 1)" using Suc.hyps(2) by simp
  have le: "j0 + 1 \<le> n" using lt by simp
  have pre: "\<forall>a b. j0 + 1 \<le> a \<and> a < n \<and> b < a \<longrightarrow> (\<exists>d. calcRMSD dgesvj (M ! a) (M ! b) = Inr d)"
    using Suc.prems(2) by simp
  show ?case
    using Suc.hyps(1)[OF k le pre, of st1] lt st1
    by (subst outer_loop.simps) simp
qed

lemma sum_list_upt_1: "2 * sum_list [1..<n] = n * (n - 1)"
proof (induction n)
  case 0
  then show ?case by simp
next
  case (Suc n)
  show ?case
  proof (cases "n = 0")
    case True
    then show ?thesis by simp
  next
    case False
    then have "[1..<Suc n] = [1..<n] @ [n]" by simp
    then have "2 * sum_list [1..<Suc n] = 2 * sum_list [1..<n] + 2 * n" by simp
    also have "\<dots> = n * (n - 1) + 2 * n" using Suc.IH by simp
    also have "\<dots> = Suc n * (Suc n - 1)" using False by (cases n) simp_all
    finally show ?thesis .
  qed
qed

lemma sum_list_pairs: "sum_list [Suc 0..<n] = n * (n - Suc 0) div 2"
  using sum_list_upt_1[of n] by simp

lemma length_pairs: "length (concat (map (\<lambda>j. map (Pair j) [0..<j]) [j0..<n])) = sum_list [j0..<n]"
  by (simp add: length_concat comp_def)

lemma set_pairs:
  "set (concat (map (\<lambda>j. map (Pair j) [0..<j]) [j0..<n])) = {(j, i). j0 \<le> j \<and> j < n \<and> i < j}"
  by auto

lemma distinct_pairs: "distinct (concat (map (\<lambda>j. map (Pair j) [0..<j]) [j0..<n]))"
proof (rule distinct_concat)
  have "inj_on (\<lambda>j. map (Pair j) [0..<j]) (set [j0..<n])"
  proof (rule inj_onI)
    fix x y assume "map (Pair x) [0..<x] = map (Pair y) [0..<y]"
    then have "length (map (Pair x) [0..<x]) = length (map (Pair y) [0..<y])" by simp
    then show "x = y" by simp
  qed
  then show "distinct (map (\<lambda>j. map (Pair j) [0..<j]) [j0..<n])"
    by (simp add: distinct_map)
next
  fix ys assume "ys \<in> set (map (\<lambda>j. map (Pair j) [0..<j]) [j0..<n])"
  then show "distinct ys" by (auto simp: distinct_map inj_on_def)
next
  fix ys zs
  assume "ys \<in> set (map (\<lambda>j. map (Pair j) [0..<j]) [j0..<n])"
    "zs \<in> set (map (\<lambda>j. map (Pair j) [0..<j]) [j0..<n])" "ys \<noteq> zs"
  then show "set ys \<inter> set zs = {}" by auto
qed

lemma rmsds_inv:
  assumes "rmsds dgesvj M = Inr st" "length M < 2 ^ 32"
  shows "evaluated st = rev (concat (map (\<lambda>j. map (Pair j) [0..<j]) [1..<length M]))"
    and "slayer st = \<lparr>expected = total_pairs (of_nat (length M)), trigger_fraction = 1 / 10,
                       completed = length M * (length M - 1) div 2\<rparr>"
    and "rows (R st) = length M" and "cols (R st) = length M"
    and "\<And>a b. a < length M \<Longrightarrow> b < a \<Longrightarrow>
           calcRMSD dgesvj (M ! a) (M ! b) = Inr (cell (R st) a b) \<and> cell (R st) b a = cell (R st) a b"
    and "\<And>a. cell (R st) a a = Finite 0"
proof -
  have n: "unat (of_nat (length M) :: 32 word) = length M"
    using assms(2) by (simp add: unat_of_nat)
  define st0 where "st0 = \<lparr>R = new_matrix (length M) (length M),
            slayer = \<lparr>expected = total_pairs (of_nat (length M)), trigger_fraction = 1 / 10, completed = 0\<rparr>,
            evaluated = []\<rparr>"
  have run: "outer_loop dgesvj M (length M) 1 st0 = Inr st"
    using assms(1) by (simp add: rmsds_def Let_def n st0_def)
  have all: "evaluated st = rev (concat (map (\<lambda>j. map (Pair j) [0..<j]) [1..<length M]))
     \<and> slayer st = \<lparr>expected = total_pairs (of_nat (length M)), trigger_fraction = 1 / 10,
                       completed = length M * (length M - 1) div 2\<rparr>
     \<and> rows (R st) = length M \<and> cols (R st) = length M
     \<and> (\<forall>a b. 1 \<le> a \<and> a < length M \<and> b < a \<longrightarrow>
           calcRMSD dgesvj (M ! a) (M ! b) = Inr (cell (R st) a b) \<and> cell (R st) b a = cell (R st) a b)
     \<and> (\<forall>a. cell (R st) a a = Finite 0)"
  proof (cases "length M = 0")
    case True
    then have "st = st0" using run by (simp add: outer_loop.simps)
    then show ?thesis using True by (simp add: st0_def new_matrix_def)
  next
    case False
    then have le: "1 \<le> length M" by (cases M) simp_all
    note inv = outer_loop_inv[OF le run]
    have 1: "evaluated st = rev (concat (map (\<lambda>j. map (Pair j) [0..<j]) [1..<length M]))"
      using inv by (simp add: st0_def)
    have 2: "slayer st = \<lparr>expected = total_pairs (of_nat (length M)), trigger_fraction = 1 / 10,
                       completed = length M * (length M - 1) div 2\<rparr>"
      using inv by (simp add: st0_def sum_list_pairs)
    have 3: "rows (R st) = length M \<and> cols (R st) = length M"
      using inv by (simp add: st0_def new_matrix_def)
    have 4: "\<forall>a b. 1 \<le> a \<and> a < length M \<and> b < a \<longrightarrow>
           calcRMSD dgesvj (M ! a) (M ! b) = Inr (cell (R st) a b) \<and> cell (R st) b a = cell (R st) a b"
      using inv by (elim conjE)
    have keep: "\<forall>a b. \<not> (1 \<le> a \<and> a < length M \<and> b < a) \<and> \<not> (1 \<le> b \<and> b < length M \<and> a < b) \<longrightarrow>
         cell (R st) a b = cell (R st0) a b"
      using inv by (elim conjE)
    have 5: "\<forall>a. cell (R st) a a = Finite 0"
      using keep by (simp add: st0_def new_matrix_def)
    from 1 2 3 4 5 show ?thesis by (intro conjI) simp_all
  qed
  show "evaluated st = rev (concat (map (\<lambda>j. map (Pair j) [0..<j]) [1..<length M]))"
    using all by (elim conjE)
  show "slayer st = \<lparr>expected = total_pairs (of_nat (length M)), trigger_fraction = 1 / 10,
                       completed = length M * (length M - 1) div 2\<rparr>"
    using all by (elim conjE)
  show "rows (R st) = length M" using all by (elim conjE)
  show "cols (R st) = length M" using all by (elim conjE)
  show "\<And>a. cell (R st) a a = Finite 0" using all by simp
  have 4: "\<forall>a b. 1 \<le> a \<and> a < length M \<and> b < a \<longrightarrow>
           calcRMSD dgesvj (M ! a) (M ! b) = Inr (cell (R st) a b) \<and> cell (R st) b a = cell (R st) a b"
    using all by (elim conjE)
  show "\<And>a b. a < length M \<Longrightarrow> b < a \<Longrightarrow>
           calcRMSD dgesvj (M ! a) (M ! b) = Inr (cell (R st) a b) \<and> cell (R st) b a = cell (R st) a b"
  proof -
    fix a b :: nat assume "a < length M" "b < a"
    then have "1 \<le> a \<and> a < length M \<and> b < a" by simp
    then show "calcRMSD dgesvj (M ! a) (M ! b) = Inr (cell (R st) a b) \<and> cell (R st) b a = cell (R st) a b"
      using 4 by simp
  qed
qed

lemma calcRMSD_ok:
  "length u = 3 * n \<Longrightarrow> 3 * n \<le> length v \<Longrightarrow> info (dgesvj (cross_covariance n u v)) = 0 \<Longrightarrow>
   \<exists>d. calcRMSD dgesvj u v = Inr d"
  by (simp add: calcRMSD_eq)

lemma rmsds_total:
  assumes "length M < 2 ^ 32"
    and "\<forall>a b. a < length M \<and> b < a \<longrightarrow> (\<exists>d. calcRMSD dgesvj (M ! a) (M ! b) = Inr d)"
  shows "\<exists>st. rmsds dgesvj M = Inr st"
proof -
  have n: "unat (of_nat (length M) :: 32 word) = length M"
    using assms(1) by (simp add: unat_of_nat)
  show ?thesis
  proof (cases "length M = 0")
    case True
    then show ?thesis by (simp add: rmsds_def Let_def outer_loop.simps)
  next
    case False
    then have le: "1 \<le> length M" by (cases M) simp_all
    have "\<forall>a b. 1 \<le> a \<and> a < length M \<and> b < a \<longrightarrow> (\<exists>d. calcRMSD dgesvj (M ! a) (M ! b) = Inr d)"
      using assms(2) by simp
    from outer_loop_total[OF le this] show ?thesis
      by (simp add: rmsds_def Let_def n)
  qed
qed

lemma cross_covariance_diag:
  "cross_covariance n u v ! 0 = (\<Sum>k\<leftarrow>[0..<n]. u ! (3 * k) * v ! (3 * k))"
  "cross_covariance n u v ! 4 = (\<Sum>k\<leftarrow>[0..<n]. u ! (3 * k + 1) * v ! (3 * k + 1))"
  "cross_covariance n u v ! 8 = (\<Sum>k\<leftarrow>[0..<n]. u ! (3 * k + 2) * v ! (3 * k + 2))"
  using cross_covariance_nth[of 0 0 n u v] cross_covariance_nth[of 1 1 n u v]
    cross_covariance_nth[of 2 2 n u v]
  by simp_all

lemma scenario_values:
  "a < 3 \<Longrightarrow> b < 3 \<Longrightarrow>
   calcRMSD diagonal_svd (scenario_centered ! a) (scenario_centered ! b) = Inr (Finite 0)"
proof -
  assume "a < 3" "b < 3"
  then have ab: "(a = 0 \<or> a = 1 \<or> a = 2) \<and> (b = 0 \<or> b = 1 \<or> b = 2)" by auto
  have len: "length (scenario_centered ! a) = 3 * 2" "3 * 2 \<le> length (scenario_centered ! b)"
    using ab by (auto simp: scenario_centered_def)
  show ?thesis
    unfolding calcRMSD_eq[OF len]
    using ab
    by (auto simp: diagonal_svd_def cross_covariance_diag sqnorm_def scenario_centered_def
          upt_rec ddiv_def)
qed

text \<open>
  Claim C2: for a run of \<open>rmsds\<close> over \<open>N\<close> frames that completes, the matrix is
  \<open>N x N\<close>, \<open>M[i][j] = M[j][i]\<close> and \<open>M[i][i] = 0\<close> for all valid indices; \<open>calcRMSD\<close> is
  evaluated exactly for the \<open>N(N-1)/2\<close> pairs \<open>(j, i)\<close> with \<open>i < j\<close>, each once, in the order
  of the two loops; each result is stored in \<open>M[j][i]\<close> and in \<open>M[i][j]\<close>; the diagonal keeps
  the zero of the new matrix. (Equality of cells is equality of the stored values.)
\<close>

theorem rmsds_symmetric:
  assumes "rmsds dgesvj M = Inr st" and "length M < 2 ^ 32"
  shows "rows (R st) = length M \<and> cols (R st) = length M
     \<and> (\<forall>i<length M. \<forall>j<length M. cell (R st) i j = cell (R st) j i)
     \<and> (\<forall>i<length M. cell (R st) i i = Finite 0)
     \<and> evaluated st = rev (concat (map (\<lambda>j. map (Pair j) [0..<j]) [1..<length M]))
     \<and> set (evaluated st) = {(j, i). i < j \<and> j < length M}
     \<and> distinct (evaluated st)
     \<and> length (evaluated st) = length M * (length M - 1) div 2
     \<and> (\<forall>j<length M. \<forall>i<j.
           calcRMSD dgesvj (M ! j) (M ! i) = Inr (cell (R st) j i) \<and> cell (R st) i j = cell (R st) j i)"
proof -
  note inv = rmsds_inv[OF assms]
  have sym: "\<forall>i<length M. \<forall>j<length M. cell (R st) i j = cell (R st) j i"
  proof (intro allI impI)
    fix i j assume "i < length M" "j < length M"
    consider "i < j" | "j < i" | "i = j" by linarith
    then show "cell (R st) i j = cell (R st) j i"
    proof cases
      case 1
      then show ?thesis using inv(5)[of j i] \<open>j < length M\<close> by simp
    next
      case 2
      then show ?thesis using inv(5)[of i j] \<open>i < length M\<close> by simp
    next
      case 3
      then show ?thesis by simp
    qed
  qed
  have ev: "evaluated st = rev (concat (map (\<lambda>j. map (Pair j) [0..<j]) [1..<length M]))"
    by (rule inv(1))
  have s: "set (evaluated st) = {(j, i). i < j \<and> j < length M}"
    unfolding ev set_rev set_pairs by auto
  have d: "distinct (evaluated st)"
    unfolding ev distinct_rev by (rule distinct_pairs)
  have l: "length (evaluated st) = length M * (length M - 1) div 2"
    unfolding ev length_rev length_pairs using sum_list_pairs[of "length M"] by simp
  have c: "\<forall>j<length M. \<forall>i<j.
           calcRMSD dgesvj (M ! j) (M ! i) = Inr (cell (R st) j i) \<and> cell (R st) i j = cell (R st) j i"
    using inv(5) by blast
  have z: "\<forall>i<length M. cell (R st) i i = Finite 0" using inv(6) by simp
  from inv(3) inv(4) sym z ev s d l c show ?thesis by (intro conjI)
qed

theorem rmsds_symmetric_witness:
  "\<exists>st. rmsds diagonal_svd scenario_centered = Inr st
     \<and> rows (R st) = 3 \<and> cols (R st) = 3
     \<and> cell (R st) 1 0 = Finite 0 \<and> cell (R st) 0 1 = Finite 0
     \<and> cell (R st) 2 0 = Finite 0 \<and> cell (R st) 0 2 = Finite 0
     \<and> cell (R st) 2 1 = Finite 0 \<and> cell (R st) 1 2 = Finite 0
     \<and> cell (R st) 0 0 = Finite 0 \<and> cell (R st) 1 1 = Finite 0 \<and> cell (R st) 2 2 = Finite 0
     \<and> evaluated st = [(2, 1), (2, 0), (1, 0)]"
proof -
  have len: "length scenario_centered = 3" by (simp add: scenario_centered_def)
  then have small: "length scenario_centered < 2 ^ 32" by simp
  have "\<forall>a b. a < length scenario_centered \<and> b < a \<longrightarrow>
      (\<exists>d. calcRMSD diagonal_svd (scenario_centered ! a) (scenario_centered ! b) = Inr d)"
    using scenario_values len by auto
  from rmsds_total[OF small this]
  obtain st where st: "rmsds diagonal_svd scenario_centered = Inr st" by blast
  note main_thm = rmsds_symmetric[OF st small, unfolded len]
  have dims: "rows (R st) = 3 \<and> cols (R st) = 3" using main_thm by (elim conjE) simp
  have diag: "\<forall>i<3. cell (R st) i i = Finite 0" using main_thm by (elim conjE)
  have vals: "\<forall>j<3. \<forall>i<j.
           calcRMSD diagonal_svd (scenario_centered ! j) (scenario_centered ! i) = Inr (cell (R st) j i)
           \<and> cell (R st) i j = cell (R st) j i"
    using main_thm by (elim conjE)
  have ev: "evaluated st = rev (concat (map (\<lambda>j. map (Pair j) [0..<j]) [1..<3]))"
    using main_thm by (elim conjE)
  have ev': "evaluated st = [(2, 1), (2, 0), (1, 0)]"
    unfolding ev by (simp add: upt_rec)
  have c10: "cell (R st) 1 0 = Finite 0 \<and> cell (R st) 0 1 = Finite 0"
    using vals[rule_format, of 1 0] scenario_values[of 1 0] by simp
  have c20: "cell (R st) 2 0 = Finite 0 \<and> cell (R st) 0 2 = Finite 0"
    using vals[rule_format, of 2 0] scenario_values[of 2 0] by simp
  have c21: "cell (R st) 2 1 = Finite 0 \<and> cell (R st) 1 2 = Finite 0"
    using vals[rule_format, of 2 1] scenario_values[of 2 1] by simp
  have d: "cell (R st) 0 0 = Finite 0 \<and> cell (R st) 1 1 = Finite 0 \<and> cell (R st) 2 2 = Finite 0"
    using diag by simp
  from st dims c10 c20 c21 d ev' show ?thesis by blast
qed

subsection \<open>The progress counter\<close>

lemma total_pairs_small:
  assumes "N \<le> 65536"
  shows "total_pairs (of_nat N) = N * (N - 1) div 2"
proof (cases "N = 0")
  case True
  then show ?thesis by (simp add: total_pairs_def)
next
  case False
  then have w: "(of_nat N :: 32 word) * (of_nat N - 1) = of_nat (N * (N - 1))"
    by (cases N) (simp_all add: algebra_simps)
  have "N * (N - 1) \<le> 65536 * 65535"
    by (rule mult_le_mono) (use assms in auto)
  then have "N * (N - 1) < 2 ^ 32" by simp
  then have "unat (of_nat (N * (N - 1)) :: 32 word) = N * (N - 1)"
    unfolding unat_of_nat by simp
  then show ?thesis unfolding total_pairs_def w by simp
qed

lemma total_pairs_65537: "total_pairs (of_nat 65537) = 32768"
  by (simp add: total_pairs_def)

lemma progress_counter_small:
  assumes "rmsds dgesvj M = Inr st" "length M \<le> 65536"
  shows "expected (slayer st) = length M * (length M - 1) div 2"
    and "completed (slayer st) = length M * (length M - 1) div 2"
    and "trigger_fraction (slayer st) = 1 / 10"
proof -
  have "length M < 2 ^ 32" using assms(2) by simp
  note inv = rmsds_inv(2)[OF assms(1) this]
  show "expected (slayer st) = length M * (length M - 1) div 2"
    unfolding inv using total_pairs_small[OF assms(2)] by simp
  show "completed (slayer st) = length M * (length M - 1) div 2"
    unfolding inv by simp
  show "trigger_fraction (slayer st) = 1 / 10"
    unfolding inv by simp
qed

text \<open>
  Claim C8: the progress counter advances by one per pair, never exceeds
  \<open>total = N(N-1)/2\<close> and ends at exactly that value. Up to 65536 frames the total computed
  by the source is \<open>N(N-1)/2\<close> (\<open>progress_counter_small\<close>). For 65537 frames the 32-bit
  product \<^verbatim>\<open>n * (n-1)\<close> wraps around: the counter is built with a total of 32768 and is
  advanced 2147516416 times.
\<close>

theorem progress_total_wraps:
  "\<exists>st. rmsds zero_svd (replicate 65537 [0, 0, 0]) = Inr st
     \<and> expected (slayer st) = 32768
     \<and> completed (slayer st) = 2147516416
     \<and> completed (slayer st) = 65537 * (65537 - 1) div 2
     \<and> expected (slayer st) < completed (slayer st)"
proof -
  let ?M = "replicate 65537 [0, 0, 0 :: real]"
  have len: "length ?M = 65537" by simp
  have small: "length ?M < 2 ^ 32" by simp
  have ok: "calcRMSD zero_svd [0, 0, 0] [0, 0, 0] = Inr (Finite 0)"
    using calcRMSD_eq[of "[0, 0, 0]" 1 "[0, 0, 0]" zero_svd]
    by (simp add: zero_svd_def sqnorm_def ddiv_def)
  have "\<forall>a b. a < length ?M \<and> b < a \<longrightarrow> (\<exists>d. calcRMSD zero_svd (?M ! a) (?M ! b) = Inr d)"
    using ok by simp
  from rmsds_total[OF small this]
  obtain st where st: "rmsds zero_svd ?M = Inr st" by blast
  note inv = rmsds_inv(2)[OF st small]
  have e: "expected (slayer st) = 32768"
    unfolding inv using total_pairs_65537 by simp
  have c: "completed (slayer st) = 2147516416"
    unfolding inv by simp
  from st e c show ?thesis by auto
qed

subsection \<open>readCoords\<close>

lemma length_concat3:
  "length (concat (map (\<lambda>i. case f i of (x, y, z) \<Rightarrow> [x, y, z :: real]) xs)) = 3 * length xs"
  by (induction xs) (auto split: prod.splits)

lemma length_flat_frame: "length (flat_frame traj model j) = 3 * length model"
  unfolding flat_frame_def by (simp add: length_concat3)

lemma take3_update:
  assumes "3 * i + 2 < length row"
  shows "take (3 * (i + 1)) (row[i * 3 := x, i * 3 + 1 := y, i * 3 + 2 := z]) = take (3 * i) row @ [x, y, z]"
proof (rule nth_equalityI)
  show "length (take (3 * (i + 1)) (row[i * 3 := x, i * 3 + 1 := y, i * 3 + 2 := z])) =
        length (take (3 * i) row @ [x, y, z])"
    using assms by simp
next
  fix k assume "k < length (take (3 * (i + 1)) (row[i * 3 := x, i * 3 + 1 := y, i * 3 + 2 := z]))"
  then have k: "k < 3 * i + 3" using assms by simp
  consider "k < 3 * i" | "k = 3 * i" | "k = 3 * i + 1" | "k = 3 * i + 2" using k by linarith
  then show "take (3 * (i + 1)) (row[i * 3 := x, i * 3 + 1 := y, i * 3 + 2 := z]) ! k =
        (take (3 * i) row @ [x, y, z]) ! k"
  proof cases
    case 1
    then show ?thesis using assms by (simp add: nth_append)
  next
    case 2
    then show ?thesis using assms by (simp add: nth_append mult.commute)
  next
    case 3
    then show ?thesis using assms by (simp add: nth_append mult.commute)
  next
    case 4
    then show ?thesis using assms by (simp add: nth_append mult.commute)
  qed
qed

lemma atom_loop_value:
  "i \<le> length model \<Longrightarrow> length row = 3 * length model \<Longrightarrow>
   atom_loop traj model j i row =
     take (3 * i) row @
     concat (map (\<lambda>i. case frame_coords traj j (model ! i) of (x, y, z) \<Rightarrow> [x, y, z]) [i..<length model])"
proof (induction "length model - i" arbitrary: i row)
  case 0
  then show ?case by (simp add: atom_loop.simps)
next
  case (Suc d)
  then have lt: "i < length model" by simp
  obtain x y z where c: "frame_coords traj j (model ! i) = (x, y, z)" by (metis prod_cases3)
  define row1 where "row1 = row[i * 3 := x, i * 3 + 1 := y, i * 3 + 2 := z]"
  have inb: "3 * i + 2 < length row" using lt Suc.prems by simp
  have step: "atom_loop traj model j i row = atom_loop traj model j (i + 1) row1"
    using lt c by (subst atom_loop.simps) (simp add: row1_def)
  have d: "d = length model - (i + 1)" using Suc.hyps(2) by simp
  have le: "i + 1 \<le> length model" using lt by simp
  have len1: "length row1 = 3 * length model" using Suc.prems by (simp add: row1_def)
  have t: "take (3 * (i + 1)) row1 = take (3 * i) row @ [x, y, z]"
    unfolding row1_def by (rule take3_update[OF inb])
  show ?case
    unfolding step Suc.hyps(1)[OF d le len1] t
    using lt c by (simp add: upt_conv_Cons)
qed

lemma atom_loop_flat:
  "length row = 3 * length model \<Longrightarrow> atom_loop traj model j 0 row = flat_frame traj model j"
  using atom_loop_value[of 0 model row traj j] by (simp add: flat_frame_def)

lemma frame_loop_value:
  "j \<le> nframes traj \<Longrightarrow> length M = nframes traj \<Longrightarrow>
   (\<forall>k. j \<le> k \<and> k < nframes traj \<longrightarrow> length (M ! k) = 3 * length model) \<Longrightarrow>
   frame_loop traj model j M = take j M @ map (flat_frame traj model) [j..<nframes traj]"
proof (induction "nframes traj - j" arbitrary: j M)
  case 0
  then show ?case by (simp add: frame_loop.simps)
next
  case (Suc d)
  then have lt: "j < nframes traj" by simp
  define M1 where "M1 = M[j := atom_loop traj model j 0 (M ! j)]"
  have row: "atom_loop traj model j 0 (M ! j) = flat_frame traj model j"
    using Suc.prems(3) lt by (simp add: atom_loop_flat)
  have step: "frame_loop traj model j M = frame_loop traj model (j + 1) M1"
    using lt by (subst frame_loop.simps) (simp add: M1_def)
  have d: "d = nframes traj - (j + 1)" using Suc.hyps(2) by simp
  have le: "j + 1 \<le> nframes traj" using lt by simp
  have len1: "length M1 = nframes traj" using Suc.prems by (simp add: M1_def)
  have pre: "\<forall>k. j + 1 \<le> k \<and> k < nframes traj \<longrightarrow> length (M1 ! k) = 3 * length model"
    using Suc.prems(3) by (simp add: M1_def)
  have t: "take (j + 1) M1 = take j M @ [flat_frame traj model j]"
    using lt Suc.prems(2) by (simp add: M1_def row take_Suc_conv_app_nth)
  show ?case
    unfolding step Suc.hyps(1)[OF d le len1 pre] t
    using lt by (simp add: upt_conv_Cons)
qed

lemma readCoords_value:
  "readCoords model traj = map (flat_frame traj model) [0..<nframes traj]"
  unfolding readCoords_def Let_def
  by (subst frame_loop_value) simp_all

subsection \<open>Facts about the output stream\<close>


lemma dec_small: "n < 10 \<Longrightarrow> decimal n = [digit n]"
  by (simp add: decimal.simps)

lemma dec_step: "10 \<le> n \<Longrightarrow> decimal n = decimal (n div 10) @ [digit (n mod 10)]"
  by (subst decimal.simps) simp





lemma fixed_half: "fixed_format 2 (Finite (1 / 2)) = ''0.50''"
proof -
  define x :: real where "x = 1 / 2"
  have pos: "0 < x" by (simp add: x_def)
  have h: "half_even (x * 100) = 50"
    unfolding half_even_def Let_def by (simp add: x_def)
  have d: "decimal 50 = ''50''" "decimal 0 = ''0''"
    by (simp_all add: dec_step dec_small digit_def)
  have "fixed_format 2 (Finite x) = ''0.50''"
    using pos by (simp add: fixed_format_def fixed_positive_def Let_def h d)
  then show ?thesis unfolding x_def .
qed



lemma decimal_nonempty: "decimal n \<noteq> []"
  by (subst decimal.simps) simp








lemma general_positive_nonempty: "general_positive p x \<noteq> []"
  unfolding general_positive_def Let_def
  by (simp add: decimal_nonempty)


lemma general_format_nonempty: "general_format p d \<noteq> []"
  unfolding general_format_def using general_positive_nonempty
  by (cases d) simp_all





subsection \<open>The run of main\<close>

lemma centerTrajectory_ok:
  assumes "\<forall>v \<in> set M. length v = 3 * n"
  shows "\<exists>M'. centerTrajectory M = Inr M' \<and> length M' = length M
     \<and> (\<forall>i<length M. centerAtOrigin (M ! i) = Inr (M' ! i) \<and> length (M' ! i) = 3 * n)"
proof -
  have ok: "\<forall>k. 0 \<le> k \<and> k < length M \<longrightarrow> (\<exists>w. centerAtOrigin (M ! k) = Inr w)"
  proof (intro allI impI)
    fix k assume "0 \<le> k \<and> k < length M"
    then have "length (M ! k) = 3 * n" using assms by simp
    from centerAtOrigin_value[OF this] show "\<exists>w. centerAtOrigin (M ! k) = Inr w" by blast
  qed
  have "0 \<le> length M" by simp
  from center_loop_value[OF this ok]
  obtain M' where M': "center_loop M 0 = Inr M'" "length M' = length M"
     "\<forall>k. 0 \<le> k \<and> k < length M \<longrightarrow> centerAtOrigin (M ! k) = Inr (M' ! k)"
    by blast
  have "\<forall>i<length M. centerAtOrigin (M ! i) = Inr (M' ! i) \<and> length (M' ! i) = 3 * n"
  proof (intro allI impI)
    fix i assume i: "i < length M"
    then have len: "length (M ! i) = 3 * n" using assms by simp
    have c: "centerAtOrigin (M ! i) = Inr (M' ! i)" using M'(3) i by simp
    from centerAtOrigin_value[OF len] c have "length (M' ! i) = length (M ! i)" by auto
    with c len show "centerAtOrigin (M ! i) = Inr (M' ! i) \<and> length (M' ! i) = 3 * n" by simp
  qed
  with M'(1,2) show ?thesis unfolding centerTrajectory_def by blast
qed

lemma rmsds_total_frames:
  assumes "length M < 2 ^ 32" "\<forall>i<length M. length (M ! i) = 3 * n" "\<forall>A. info (dgesvj A) = 0"
  shows "\<exists>st. rmsds dgesvj M = Inr st"
proof (rule rmsds_total[OF assms(1)], intro allI impI)
  fix a b assume ab: "a < length M \<and> b < a"
  then have "length (M ! a) = 3 * n" "3 * n \<le> length (M ! b)" using assms(2) by simp_all
  then show "\<exists>d. calcRMSD dgesvj (M ! a) (M ! b) = Inr d"
    using assms(3) calcRMSD_ok[of "M ! a" n "M ! b" dgesvj] by simp
qed

lemma main_completes:
  assumes "\<not> check m"
    and "nframes (createTrajectory env (traj1 topts) (createSystem env (model1 topts))) < 2 ^ 32"
    and "\<forall>A. info (dgesvj_routine env A) = 0"
  shows "\<exists>r. main env header m topts = Completed r"
proof -
  define model where "model = createSystem env (model1 topts)"
  define traj where "traj = createTrajectory env (traj1 topts) model"
  define subset where "subset = selectAtoms env model (sel1 topts)"
  define T where "T = readCoords subset traj"
  have T: "T = map (flat_frame traj subset) [0..<nframes traj]"
    unfolding T_def by (rule readCoords_value)
  have lenT: "length T = nframes traj" using T by simp
  have "\<forall>v \<in> set T. length v = 3 * length subset"
    unfolding T by (auto simp: length_flat_frame)
  from centerTrajectory_ok[OF this]
  obtain T' where T': "centerTrajectory T = Inr T'" "length T' = length T"
     "\<forall>i<length T. centerAtOrigin (T ! i) = Inr (T' ! i) \<and> length (T' ! i) = 3 * length subset"
    by blast
  have small: "length T' < 2 ^ 32" using assms(2) T'(2) lenT by (simp add: traj_def model_def)
  have "\<forall>i<length T'. length (T' ! i) = 3 * length subset" using T'(2,3) by simp
  from rmsds_total_frames[OF small this assms(3)]
  obtain st where st: "rmsds (dgesvj_routine env) T' = Inr st" by blast
  show ?thesis
    using assms(1) T' st
    by (simp add: main_def Let_def model_def[symmetric] traj_def[symmetric] subset_def[symmetric] T_def[symmetric])
qed

lemma outer_loop_dims:
  assumes "outer_loop dgesvj M n j0 st = Inr st'"
  shows "rows (R st') = rows (R st) \<and> cols (R st') = cols (R st)"
proof (cases "j0 \<le> n")
  case True
  from outer_loop_inv[OF True assms] show ?thesis by (elim conjE) simp
next
  case False
  then have "st' = st" using assms by (simp add: outer_loop.simps)
  then show ?thesis by simp
qed

lemma rmsds_dims:
  assumes "rmsds dgesvj M = Inr st"
  shows "rows (R st) = unat (of_nat (length M) :: 32 word)"
    and "cols (R st) = unat (of_nat (length M) :: 32 word)"
  using outer_loop_dims[OF assms[unfolded rmsds_def Let_def]]
  by (simp_all add: new_matrix_def)

lemma main_CompletedD:
  assumes "main env header m topts = Completed r"
  shows "\<not> check m \<and>
    (\<exists>T' st. centerTrajectory (readCoords (selectAtoms env (createSystem env (model1 topts)) (sel1 topts))
                 (createTrajectory env (traj1 topts) (createSystem env (model1 topts)))) = Inr T'
        \<and> rmsds (dgesvj_routine env) T' = Inr st
        \<and> r = \<lparr>matrix = R st, progress = slayer st,
                cout = (if \<not> noop topts
                        then (''# '' @ header) # matrix_lines matrix_precision (R st)
                        else []),
                warnings = []\<rparr>)"
  using assms unfolding main_def Let_def
  by (auto split: if_splits sum.splits)




lemma centerTrajectory_length:
  assumes "centerTrajectory M = Inr M'"
  shows "length M' = length M"
proof -
  have "\<And>i M'. center_loop M i = Inr M' \<Longrightarrow> length M' = length M"
  proof -
    fix i M' show "center_loop M i = Inr M' \<Longrightarrow> length M' = length M"
    proof (induction M i arbitrary: M' rule: center_loop.induct)
      case (1 M i)
      show ?case
      proof (cases "i < length M")
        case False
        then show ?thesis using "1.prems" by (simp add: center_loop.simps)
      next
        case True
        then obtain v' where v': "centerAtOrigin (M ! i) = Inr v'"
          using "1.prems" by (subst (asm) center_loop.simps) (auto split: sum.splits)
        have "center_loop (M[i := v']) (i + 1) = Inr M'"
          using "1.prems" True v' by (subst (asm) center_loop.simps) simp
        from "1.IH"[OF True v' this] show ?thesis by simp
      qed
    qed
  qed
  then show ?thesis using assms unfolding centerTrajectory_def by blast
qed

lemma main_rows:
  assumes "main env header m topts = Completed r"
  shows "cols (matrix r) = rows (matrix r)"
    and "nframes (createTrajectory env (traj1 topts) (createSystem env (model1 topts))) < 2 ^ 32 \<Longrightarrow>
         rows (matrix r) = nframes (createTrajectory env (traj1 topts) (createSystem env (model1 topts)))"
proof -
  from main_CompletedD[OF assms]
  obtain T' st where c: "centerTrajectory (readCoords (selectAtoms env (createSystem env (model1 topts)) (sel1 topts))
                 (createTrajectory env (traj1 topts) (createSystem env (model1 topts)))) = Inr T'"
     and st: "rmsds (dgesvj_routine env) T' = Inr st" and r: "matrix r = R st"
    by auto
  show "cols (matrix r) = rows (matrix r)"
    using rmsds_dims[OF st] r by simp
  assume small: "nframes (createTrajectory env (traj1 topts) (createSystem env (model1 topts))) < 2 ^ 32"
  have "length T' = nframes (createTrajectory env (traj1 topts) (createSystem env (model1 topts)))"
    using centerTrajectory_length[OF c] by (simp add: readCoords_value)
  then show "rows (matrix r) = nframes (createTrajectory env (traj1 topts) (createSystem env (model1 topts)))"
    using rmsds_dims(1)[OF st] r small by (simp add: unat_of_nat)
qed




lemma check_samples: "\<not> check one_trajectory" "\<not> check two_trajectories"
  by (simp_all add: check_def one_trajectory_def two_trajectories_def)














text \<open>
  Claim C4: a warning is issued if and only if the estimate frames x atoms x 3 x 8 exceeds
  the configured fraction of the physical memory. The source states the intent (the comment
  above \<^verbatim>\<open>cache_memory_fraction_warning\<close>, the help text) but no statement computes the
  estimate or issues a warning. A run over 100000 frames of 30000 atoms, an estimate of
  72 GB, on a machine with 64 GiB of memory completes without a warning.
\<close>

theorem cache_warning_missing:
  "\<exists>r. main large_env ''rmsds model.pdb simulation.dcd'' one_trajectory default_options = Completed r
     \<and> rows (matrix r) = nframes large_traj
     \<and> warnings r = []
     \<and> cache_estimate (nframes large_traj) (length [0..<30000::nat]) = 72000000000
     \<and> cache_memory_fraction_warning * real (64 * 2 ^ 30)
          < real (cache_estimate (nframes large_traj) (length [0..<30000::nat]))"
proof -
  have t: "createTrajectory large_env (traj1 default_options)
             (createSystem large_env (model1 default_options)) = large_traj"
    by (simp add: large_env_def)
  have small: "nframes (createTrajectory large_env (traj1 default_options)
             (createSystem large_env (model1 default_options))) < 2 ^ 32"
    unfolding t by (simp add: large_traj_def)
  have ok: "\<forall>A. info (dgesvj_routine large_env A) = 0"
    by (simp add: large_env_def zero_svd_def)
  from main_completes[OF check_samples(1) small ok, of "''rmsds model.pdb simulation.dcd''"]
  obtain r where r: "main large_env ''rmsds model.pdb simulation.dcd'' one_trajectory default_options = Completed r"
    by blast
  have w: "warnings r = []" using main_CompletedD[OF r] by auto
  have rw: "rows (matrix r) = nframes large_traj"
    using main_rows(2)[OF r small] unfolding t .
  have e: "cache_estimate (nframes large_traj) (length [0..<30000::nat]) = 72000000000"
    by (simp add: cache_estimate_def large_traj_def)
  have "cache_memory_fraction_warning * real (64 * 2 ^ 30) < real (72000000000::nat)"
    by (simp add: cache_memory_fraction_warning_def)
  with r w rw e show ?thesis by metis
qed

subsection \<open>Sums over index sets\<close>

lemma times_delta: "x * (if c then 1 else 0) = (if c then x else (0::real))"
  by simp

lemma delta_times_delta: "(if c then 1 else 0) * (if c then 1 else 0) = (if c then 1 else (0::real))"
  by simp

lemma sum4_rotate:
  fixes f :: "nat \<Rightarrow> nat \<Rightarrow> nat \<Rightarrow> nat \<Rightarrow> real"
  shows "(\<Sum>i\<in>I. \<Sum>a\<in>I. \<Sum>b\<in>I. \<Sum>k\<in>I. f i a b k) = (\<Sum>k\<in>I. \<Sum>i\<in>I. \<Sum>a\<in>I. \<Sum>b\<in>I. f i a b k)"
proof -
  have "(\<Sum>i\<in>I. \<Sum>a\<in>I. \<Sum>b\<in>I. \<Sum>k\<in>I. f i a b k) = (\<Sum>i\<in>I. \<Sum>a\<in>I. \<Sum>k\<in>I. \<Sum>b\<in>I. f i a b k)"
    by (rule sum.cong[OF refl], rule sum.cong[OF refl], rule sum.swap)
  also have "\<dots> = (\<Sum>i\<in>I. \<Sum>k\<in>I. \<Sum>a\<in>I. \<Sum>b\<in>I. f i a b k)"
    by (rule sum.cong[OF refl], rule sum.swap)
  also have "\<dots> = (\<Sum>k\<in>I. \<Sum>i\<in>I. \<Sum>a\<in>I. \<Sum>b\<in>I. f i a b k)"
    by (rule sum.swap)
  finally show ?thesis .
qed

lemma trace_expand:
  fixes A P Q P' Q' :: "nat \<Rightarrow> nat \<Rightarrow> real" and s :: "nat \<Rightarrow> real"
  assumes A: "\<And>a b. a \<in> I \<Longrightarrow> b \<in> I \<Longrightarrow> A a b = (\<Sum>k\<in>I. P a k * s k * Q b k)"
  shows "(\<Sum>i\<in>I. \<Sum>a\<in>I. \<Sum>b\<in>I. P' a i * A a b * Q' b i)
       = (\<Sum>k\<in>I. s k * (\<Sum>i\<in>I. (\<Sum>a\<in>I. P' a i * P a k) * (\<Sum>b\<in>I. Q' b i * Q b k)))"
proof -
  have "(\<Sum>i\<in>I. \<Sum>a\<in>I. \<Sum>b\<in>I. P' a i * A a b * Q' b i)
      = (\<Sum>i\<in>I. \<Sum>a\<in>I. \<Sum>b\<in>I. \<Sum>k\<in>I. s k * ((P' a i * P a k) * (Q' b i * Q b k)))"
    by (rule sum.cong[OF refl], rule sum.cong[OF refl], rule sum.cong[OF refl])
       (simp add: A sum_distrib_left sum_distrib_right mult_ac)
  also have "\<dots> = (\<Sum>k\<in>I. \<Sum>i\<in>I. \<Sum>a\<in>I. \<Sum>b\<in>I. s k * ((P' a i * P a k) * (Q' b i * Q b k)))"
    by (rule sum4_rotate)
  also have "\<dots> = (\<Sum>k\<in>I. s k * (\<Sum>i\<in>I. (\<Sum>a\<in>I. P' a i * P a k) * (\<Sum>b\<in>I. Q' b i * Q b k)))"
    by (rule sum.cong[OF refl]) (simp only: sum_product, simp only: sum_distrib_left)
  finally show ?thesis .
qed

lemma norm_preserved:
  fixes P' :: "nat \<Rightarrow> nat \<Rightarrow> real" and x :: "nat \<Rightarrow> real"
  assumes fin: "finite I"
    and rows: "\<And>a a'. a \<in> I \<Longrightarrow> a' \<in> I \<Longrightarrow> (\<Sum>i\<in>I. P' a i * P' a' i) = (if a = a' then 1 else 0)"
  shows "(\<Sum>i\<in>I. (\<Sum>a\<in>I. P' a i * x a) * (\<Sum>a\<in>I. P' a i * x a)) = (\<Sum>a\<in>I. x a * x a)"
proof -
  have "(\<Sum>i\<in>I. (\<Sum>a\<in>I. P' a i * x a) * (\<Sum>a\<in>I. P' a i * x a))
      = (\<Sum>i\<in>I. \<Sum>a\<in>I. \<Sum>a'\<in>I. (x a * x a') * (P' a i * P' a' i))"
    by (rule sum.cong[OF refl]) (simp only: sum_product, simp only: mult_ac)
  also have "\<dots> = (\<Sum>a\<in>I. \<Sum>i\<in>I. \<Sum>a'\<in>I. (x a * x a') * (P' a i * P' a' i))"
    by (rule sum.swap)
  also have "\<dots> = (\<Sum>a\<in>I. \<Sum>a'\<in>I. \<Sum>i\<in>I. (x a * x a') * (P' a i * P' a' i))"
    by (rule sum.cong[OF refl], rule sum.swap)
  also have "\<dots> = (\<Sum>a\<in>I. \<Sum>a'\<in>I. (x a * x a') * (if a = a' then 1 else 0))"
    by (rule sum.cong[OF refl], rule sum.cong[OF refl]) (simp add: sum_distrib_left[symmetric] rows)
  also have "\<dots> = (\<Sum>a\<in>I. x a * x a)"
    by (rule sum.cong[OF refl]) (simp only: times_delta sum.delta'[OF fin], simp)
  finally show ?thesis .
qed

lemma overlap_le:
  fixes X Y :: "nat \<Rightarrow> real"
  shows "2 * (\<Sum>i\<in>I. X i * Y i) \<le> (\<Sum>i\<in>I. X i * X i) + (\<Sum>i\<in>I. Y i * Y i)"
proof -
  have "\<And>i. 2 * (X i * Y i) \<le> X i * X i + Y i * Y i"
  proof -
    fix i
    have "0 \<le> (X i - Y i) * (X i - Y i)" by simp
    then show "2 * (X i * Y i) \<le> X i * X i + Y i * Y i" by (simp add: algebra_simps)
  qed
  then have "(\<Sum>i\<in>I. 2 * (X i * Y i)) \<le> (\<Sum>i\<in>I. X i * X i + Y i * Y i)"
    by (intro sum_mono)
  then show ?thesis by (simp add: sum_distrib_left sum.distrib)
qed

lemma trace_identity:
  fixes A P' Q' :: "nat \<Rightarrow> nat \<Rightarrow> real" and s' :: "nat \<Rightarrow> real"
  assumes fin: "finite I"
    and A': "\<And>a b. a \<in> I \<Longrightarrow> b \<in> I \<Longrightarrow> A a b = (\<Sum>k\<in>I. P' a k * s' k * Q' b k)"
    and P'c: "\<And>i k. i \<in> I \<Longrightarrow> k \<in> I \<Longrightarrow> (\<Sum>a\<in>I. P' a i * P' a k) = (if i = k then 1 else 0)"
    and Q'c: "\<And>i k. i \<in> I \<Longrightarrow> k \<in> I \<Longrightarrow> (\<Sum>a\<in>I. Q' a i * Q' a k) = (if i = k then 1 else 0)"
  shows "(\<Sum>k\<in>I. s' k) = (\<Sum>i\<in>I. \<Sum>a\<in>I. \<Sum>b\<in>I. P' a i * A a b * Q' b i)"
proof -
  have "(\<Sum>i\<in>I. \<Sum>a\<in>I. \<Sum>b\<in>I. P' a i * A a b * Q' b i)
       = (\<Sum>k\<in>I. s' k * (\<Sum>i\<in>I. (\<Sum>a\<in>I. P' a i * P' a k) * (\<Sum>b\<in>I. Q' b i * Q' b k)))"
    by (rule trace_expand) (rule A')
  also have "\<dots> = (\<Sum>k\<in>I. s' k * (\<Sum>i\<in>I. (if i = k then 1 else 0) * (if i = k then 1 else 0)))"
    by (rule sum.cong[OF refl], rule arg_cong2[where f = "(*)", OF refl], rule sum.cong[OF refl])
       (simp add: P'c Q'c)
  also have "\<dots> = (\<Sum>k\<in>I. s' k)"
    by (rule sum.cong[OF refl]) (simp only: delta_times_delta sum.delta[OF fin], simp)
  finally show ?thesis by simp
qed

text \<open>
  The sum of the singular values of \<open>\<Sum>m. x\<^sub>m y\<^sub>m\<^sup>T\<close> is at most half the sum of the squared
  norms of the \<open>x\<^sub>m\<close> and \<open>y\<^sub>m\<close>.
\<close>

lemma nuclear_le_norms:
  fixes A P' Q' :: "nat \<Rightarrow> nat \<Rightarrow> real" and s' :: "nat \<Rightarrow> real" and x y :: "nat \<Rightarrow> nat \<Rightarrow> real"
  assumes fin: "finite I"
    and A': "\<And>a b. a \<in> I \<Longrightarrow> b \<in> I \<Longrightarrow> A a b = (\<Sum>k\<in>I. P' a k * s' k * Q' b k)"
    and Ax: "\<And>a b. a \<in> I \<Longrightarrow> b \<in> I \<Longrightarrow> A a b = (\<Sum>m\<in>J. x m a * y m b)"
    and P'c: "\<And>i k. i \<in> I \<Longrightarrow> k \<in> I \<Longrightarrow> (\<Sum>a\<in>I. P' a i * P' a k) = (if i = k then 1 else 0)"
    and Q'c: "\<And>i k. i \<in> I \<Longrightarrow> k \<in> I \<Longrightarrow> (\<Sum>a\<in>I. Q' a i * Q' a k) = (if i = k then 1 else 0)"
    and P'r: "\<And>a a'. a \<in> I \<Longrightarrow> a' \<in> I \<Longrightarrow> (\<Sum>i\<in>I. P' a i * P' a' i) = (if a = a' then 1 else 0)"
    and Q'r: "\<And>a a'. a \<in> I \<Longrightarrow> a' \<in> I \<Longrightarrow> (\<Sum>i\<in>I. Q' a i * Q' a' i) = (if a = a' then 1 else 0)"
  shows "2 * (\<Sum>k\<in>I. s' k) \<le> (\<Sum>m\<in>J. \<Sum>a\<in>I. x m a * x m a) + (\<Sum>m\<in>J. \<Sum>a\<in>I. y m a * y m a)"
proof -
  have "(\<Sum>k\<in>I. s' k) = (\<Sum>i\<in>I. \<Sum>a\<in>I. \<Sum>b\<in>I. P' a i * A a b * Q' b i)"
    by (rule trace_identity[OF fin A' P'c Q'c])
  also have "\<dots> = (\<Sum>i\<in>I. \<Sum>a\<in>I. \<Sum>b\<in>I. \<Sum>m\<in>J. (P' a i * x m a) * (Q' b i * y m b))"
    by (rule sum.cong[OF refl], rule sum.cong[OF refl], rule sum.cong[OF refl])
       (simp add: Ax sum_distrib_left sum_distrib_right mult_ac)
  also have "\<dots> = (\<Sum>i\<in>I. \<Sum>a\<in>I. \<Sum>m\<in>J. \<Sum>b\<in>I. (P' a i * x m a) * (Q' b i * y m b))"
    by (rule sum.cong[OF refl], rule sum.cong[OF refl], rule sum.swap)
  also have "\<dots> = (\<Sum>i\<in>I. \<Sum>m\<in>J. \<Sum>a\<in>I. \<Sum>b\<in>I. (P' a i * x m a) * (Q' b i * y m b))"
    by (rule sum.cong[OF refl], rule sum.swap)
  also have "\<dots> = (\<Sum>m\<in>J. \<Sum>i\<in>I. \<Sum>a\<in>I. \<Sum>b\<in>I. (P' a i * x m a) * (Q' b i * y m b))"
    by (rule sum.swap)
  also have "\<dots> = (\<Sum>m\<in>J. \<Sum>i\<in>I. (\<Sum>a\<in>I. P' a i * x m a) * (\<Sum>b\<in>I. Q' b i * y m b))"
    by (rule sum.cong[OF refl], rule sum.cong[OF refl]) (simp only: sum_product)
  finally have tr: "(\<Sum>k\<in>I. s' k) = (\<Sum>m\<in>J. \<Sum>i\<in>I. (\<Sum>a\<in>I. P' a i * x m a) * (\<Sum>b\<in>I. Q' b i * y m b))" .
  have "2 * (\<Sum>m\<in>J. \<Sum>i\<in>I. (\<Sum>a\<in>I. P' a i * x m a) * (\<Sum>b\<in>I. Q' b i * y m b))
      = (\<Sum>m\<in>J. 2 * (\<Sum>i\<in>I. (\<Sum>a\<in>I. P' a i * x m a) * (\<Sum>b\<in>I. Q' b i * y m b)))"
    by (simp add: sum_distrib_left)
  also have "\<dots> \<le> (\<Sum>m\<in>J. (\<Sum>a\<in>I. x m a * x m a) + (\<Sum>a\<in>I. y m a * y m a))"
  proof (rule sum_mono)
    fix m assume "m \<in> J"
    have "2 * (\<Sum>i\<in>I. (\<Sum>a\<in>I. P' a i * x m a) * (\<Sum>b\<in>I. Q' b i * y m b))
        \<le> (\<Sum>i\<in>I. (\<Sum>a\<in>I. P' a i * x m a) * (\<Sum>a\<in>I. P' a i * x m a))
          + (\<Sum>i\<in>I. (\<Sum>b\<in>I. Q' b i * y m b) * (\<Sum>b\<in>I. Q' b i * y m b))"
      by (rule overlap_le)
    also have "\<dots> = (\<Sum>a\<in>I. x m a * x m a) + (\<Sum>a\<in>I. y m a * y m a)"
      using norm_preserved[of I P' "x m", OF fin P'r] norm_preserved[of I Q' "y m", OF fin Q'r]
      by simp
    finally show "2 * (\<Sum>i\<in>I. (\<Sum>a\<in>I. P' a i * x m a) * (\<Sum>b\<in>I. Q' b i * y m b))
        \<le> (\<Sum>a\<in>I. x m a * x m a) + (\<Sum>a\<in>I. y m a * y m a)" .
  qed
  also have "\<dots> = (\<Sum>m\<in>J. \<Sum>a\<in>I. x m a * x m a) + (\<Sum>m\<in>J. \<Sum>a\<in>I. y m a * y m a)"
    by (simp add: sum.distrib)
  finally show ?thesis using tr by simp
qed

text \<open>The sum of the singular values of one factorisation bounds that of any other.\<close>

lemma nuclear_le:
  fixes A P Q P' Q' :: "nat \<Rightarrow> nat \<Rightarrow> real" and s s' :: "nat \<Rightarrow> real"
  assumes fin: "finite I"
    and A: "\<And>a b. a \<in> I \<Longrightarrow> b \<in> I \<Longrightarrow> A a b = (\<Sum>k\<in>I. P a k * s k * Q b k)"
    and A': "\<And>a b. a \<in> I \<Longrightarrow> b \<in> I \<Longrightarrow> A a b = (\<Sum>k\<in>I. P' a k * s' k * Q' b k)"
    and s: "\<And>k. k \<in> I \<Longrightarrow> 0 \<le> s k"
    and Pc: "\<And>k. k \<in> I \<Longrightarrow> (\<Sum>a\<in>I. P a k * P a k) = 1"
    and Qc: "\<And>k. k \<in> I \<Longrightarrow> (\<Sum>a\<in>I. Q a k * Q a k) = 1"
    and P'c: "\<And>i k. i \<in> I \<Longrightarrow> k \<in> I \<Longrightarrow> (\<Sum>a\<in>I. P' a i * P' a k) = (if i = k then 1 else 0)"
    and Q'c: "\<And>i k. i \<in> I \<Longrightarrow> k \<in> I \<Longrightarrow> (\<Sum>a\<in>I. Q' a i * Q' a k) = (if i = k then 1 else 0)"
    and P'r: "\<And>a a'. a \<in> I \<Longrightarrow> a' \<in> I \<Longrightarrow> (\<Sum>i\<in>I. P' a i * P' a' i) = (if a = a' then 1 else 0)"
    and Q'r: "\<And>a a'. a \<in> I \<Longrightarrow> a' \<in> I \<Longrightarrow> (\<Sum>i\<in>I. Q' a i * Q' a' i) = (if a = a' then 1 else 0)"
  shows "(\<Sum>k\<in>I. s' k) \<le> (\<Sum>k\<in>I. s k)"
proof -
  have tr: "(\<Sum>k\<in>I. s' k) = (\<Sum>i\<in>I. \<Sum>a\<in>I. \<Sum>b\<in>I. P' a i * A a b * Q' b i)"
    by (rule trace_identity[OF fin A' P'c Q'c])
  have "(\<Sum>i\<in>I. \<Sum>a\<in>I. \<Sum>b\<in>I. P' a i * A a b * Q' b i)
       = (\<Sum>k\<in>I. s k * (\<Sum>i\<in>I. (\<Sum>a\<in>I. P' a i * P a k) * (\<Sum>b\<in>I. Q' b i * Q b k)))"
    by (rule trace_expand) (rule A)
  also have "\<dots> \<le> (\<Sum>k\<in>I. s k * 1)"
  proof (intro sum_mono mult_left_mono s)
    fix k assume k: "k \<in> I"
    have "2 * (\<Sum>i\<in>I. (\<Sum>a\<in>I. P' a i * P a k) * (\<Sum>b\<in>I. Q' b i * Q b k))
        \<le> (\<Sum>i\<in>I. (\<Sum>a\<in>I. P' a i * P a k) * (\<Sum>a\<in>I. P' a i * P a k))
          + (\<Sum>i\<in>I. (\<Sum>b\<in>I. Q' b i * Q b k) * (\<Sum>b\<in>I. Q' b i * Q b k))"
      by (rule overlap_le)
    also have "\<dots> = (\<Sum>a\<in>I. P a k * P a k) + (\<Sum>a\<in>I. Q a k * Q a k)"
      using norm_preserved[of I P' "\<lambda>a. P a k", OF fin P'r]
        norm_preserved[of I Q' "\<lambda>a. Q a k", OF fin Q'r]
      by simp
    finally show "(\<Sum>i\<in>I. (\<Sum>a\<in>I. P' a i * P a k) * (\<Sum>b\<in>I. Q' b i * Q b k)) \<le> 1"
      using Pc[OF k] Qc[OF k] by simp
  qed
  finally show ?thesis using tr by simp
qed

subsection \<open>Singular values and the symmetry of calcRMSD\<close>

lemma sum_sv: "(\<Sum>k<3. sv s k) = fst s + fst (snd s) + snd (snd s)"
  by (cases s) (simp add: sv_def numeral_3_eq_3)

lemma orthogonal3D:
  assumes "orthogonal3 Q"
  shows "\<And>i j. i \<in> {..<3} \<Longrightarrow> j \<in> {..<3} \<Longrightarrow>
           (\<Sum>k\<in>{..<3}. entry Q k i * entry Q k j) = (if i = j then 1 else 0)"
    and "\<And>i j. i \<in> {..<3} \<Longrightarrow> j \<in> {..<3} \<Longrightarrow>
           (\<Sum>k\<in>{..<3}. entry Q i k * entry Q j k) = (if i = j then 1 else 0)"
    and "\<And>k. k \<in> {..<3} \<Longrightarrow> (\<Sum>a\<in>{..<3}. entry Q a k * entry Q a k) = 1"
  using assms unfolding orthogonal3_def by auto

text \<open>Two sets of singular values of a matrix and of its transpose have the same sum.\<close>

lemma singular_values_sum_le:
  assumes s: "singular_values A s" and s': "singular_values A' s'"
    and tr: "\<forall>a<3. \<forall>b<3. entry A' a b = entry A b a"
  shows "(\<Sum>k<3. sv s' k) \<le> (\<Sum>k<3. sv s k)"
proof -
  from s obtain P Q where pos: "\<forall>k<3. 0 \<le> sv s k" and P: "orthogonal3 P" and Q: "orthogonal3 Q"
    and A: "\<forall>a<3. \<forall>b<3. entry A a b = (\<Sum>k<3. entry P a k * sv s k * entry Q b k)"
    unfolding singular_values_def by blast
  from s' obtain P' Q' where P': "orthogonal3 P'" and Q': "orthogonal3 Q'"
    and A': "\<forall>a<3. \<forall>b<3. entry A' a b = (\<Sum>k<3. entry P' a k * sv s' k * entry Q' b k)"
    unfolding singular_values_def by blast
  have fin: "finite {..<3::nat}" by simp
  have f1: "\<And>a b. a \<in> {..<3} \<Longrightarrow> b \<in> {..<3} \<Longrightarrow>
      entry A' a b = (\<Sum>k\<in>{..<3}. entry Q a k * sv s k * entry P b k)"
  proof -
    fix a b :: nat assume "a \<in> {..<3}" "b \<in> {..<3}"
    then have ab: "a < 3" "b < 3" by simp_all
    have "entry A' a b = entry A b a" using tr ab by simp
    also have "\<dots> = (\<Sum>k<3. entry P b k * sv s k * entry Q a k)" using A ab by simp
    also have "\<dots> = (\<Sum>k\<in>{..<3}. entry Q a k * sv s k * entry P b k)"
      by (rule sum.cong[OF refl]) (simp add: mult_ac)
    finally show "entry A' a b = (\<Sum>k\<in>{..<3}. entry Q a k * sv s k * entry P b k)" .
  qed
  have f2: "\<And>a b. a \<in> {..<3} \<Longrightarrow> b \<in> {..<3} \<Longrightarrow>
      entry A' a b = (\<Sum>k\<in>{..<3}. entry P' a k * sv s' k * entry Q' b k)"
    using A' by simp
  have p: "\<And>k. k \<in> {..<3} \<Longrightarrow> 0 \<le> sv s k" using pos by simp
  show ?thesis
    by (rule nuclear_le[where I = "{..<3}" and A = "entry A'" and P = "entry Q" and Q = "entry P"
          and P' = "entry P'" and Q' = "entry Q'", OF fin f1 f2 p
          orthogonal3D(3)[OF Q] orthogonal3D(3)[OF P]
          orthogonal3D(1)[OF P'] orthogonal3D(1)[OF Q']
          orthogonal3D(2)[OF P'] orthogonal3D(2)[OF Q']])
qed

lemma singular_values_transpose:
  assumes "singular_values A s" "singular_values A' s'"
    and "\<forall>a<3. \<forall>b<3. entry A' a b = entry A b a"
  shows "fst s' + fst (snd s') + snd (snd s') = fst s + fst (snd s) + snd (snd s)"
proof -
  have "\<forall>a<3. \<forall>b<3. entry A a b = entry A' b a" using assms(3) by simp
  from singular_values_sum_le[OF assms] singular_values_sum_le[OF assms(2,1) this]
  show ?thesis by (simp add: sum_sv)
qed

lemma cross_covariance_transpose:
  "\<forall>a<3. \<forall>b<3. entry (cross_covariance n v u) a b = entry (cross_covariance n u v) b a"
proof (intro allI impI)
  fix a b :: nat assume ab: "a < 3" "b < 3"
  have "(\<Sum>k\<leftarrow>[0..<n]. v ! (3 * k + a) * u ! (3 * k + b))
      = (\<Sum>k\<leftarrow>[0..<n]. u ! (3 * k + b) * v ! (3 * k + a))"
    by (simp add: mult.commute)
  then show "entry (cross_covariance n v u) a b = entry (cross_covariance n u v) b a"
    unfolding entry_def cross_covariance_nth[OF ab] cross_covariance_nth[OF ab(2,1)] .
qed

lemma upt9: "[0..<9] = [0, 1, 2, 3, 4, 5, 6, 7, 8]"
  by (simp add: upt_rec)

lemma upt2: "[0..<2] = [0, 1]"
  by (simp add: upt_rec)

lemma cc_xy: "cross_covariance 2 dumbbell dumbbell_y = [0, 0, 0, 2, 0, 0, 0, 0, 0]"
  by (simp add: cross_covariance_def upt9 upt2 dumbbell_def dumbbell_y_def)

lemma cc_yx: "cross_covariance 2 dumbbell_y dumbbell = [0, 2, 0, 0, 0, 0, 0, 0, 0]"
  by (simp add: cross_covariance_def upt9 upt2 dumbbell_def dumbbell_y_def)

lemma all_less_3: "(\<forall>i<3. P i) \<longleftrightarrow> P (0::nat) \<and> P 1 \<and> P 2"
proof
  assume "\<forall>i<3. P i" then show "P 0 \<and> P 1 \<and> P 2" by simp
next
  assume a: "P 0 \<and> P 1 \<and> P 2"
  show "\<forall>i<3. P i"
  proof (intro allI impI)
    fix i :: nat assume "i < 3"
    then have "i = 0 \<or> i = 1 \<or> i = 2" by auto
    then show "P i" using a by auto
  qed
qed

lemma sum3: "(\<Sum>k<(3::nat). f k) = f 0 + f 1 + (f 2 :: real)"
  by (simp add: numeral_3_eq_3 numeral_2_eq_2)

lemma orthogonal_identity: "orthogonal3 [1, 0, 0, 0, 1, 0, 0, 0, 1]"
  unfolding orthogonal3_def all_less_3 sum3 entry_def by simp

lemma orthogonal_swap: "orthogonal3 [0, 1, 0, 1, 0, 0, 0, 0, 1]"
  unfolding orthogonal3_def all_less_3 sum3 entry_def by simp

lemma singular_valuesI:
  assumes "\<forall>k<3. 0 \<le> sv s k" "orthogonal3 P" "orthogonal3 Q"
    and "\<forall>a<3. \<forall>b<3. entry A a b = (\<Sum>k<3. entry P a k * sv s k * entry Q b k)"
  shows "singular_values A s"
  unfolding singular_values_def using assms by blast

lemma sv_xy: "singular_values [0, 0, 0, 2, 0, 0, 0, 0, 0] (2, 0, 0)"
proof (rule singular_valuesI)
  show "\<forall>k<3. 0 \<le> sv (2, 0, 0) k" by (simp add: sv_def)
  show "orthogonal3 [1, 0, 0, 0, 1, 0, 0, 0, 1]" by (rule orthogonal_identity)
  show "orthogonal3 [0, 1, 0, 1, 0, 0, 0, 0, 1]" by (rule orthogonal_swap)
  show "\<forall>a<3. \<forall>b<3. entry [0, 0, 0, 2, 0, 0, 0, 0, 0] a b =
          (\<Sum>k<3. entry [1, 0, 0, 0, 1, 0, 0, 0, 1] a k * sv (2, 0, 0) k * entry [0, 1, 0, 1, 0, 0, 0, 0, 1] b k)"
    unfolding all_less_3 sum3 entry_def sv_def by simp
qed

lemma sv_yx: "singular_values [0, 2, 0, 0, 0, 0, 0, 0, 0] (2, 0, 0)"
proof (rule singular_valuesI)
  show "\<forall>k<3. 0 \<le> sv (2, 0, 0) k" by (simp add: sv_def)
  show "orthogonal3 [0, 1, 0, 1, 0, 0, 0, 0, 1]" by (rule orthogonal_swap)
  show "orthogonal3 [1, 0, 0, 0, 1, 0, 0, 0, 1]" by (rule orthogonal_identity)
  show "\<forall>a<3. \<forall>b<3. entry [0, 2, 0, 0, 0, 0, 0, 0, 0] a b =
          (\<Sum>k<3. entry [0, 1, 0, 1, 0, 0, 0, 0, 1] a k * sv (2, 0, 0) k * entry [1, 0, 0, 0, 1, 0, 0, 0, 1] b k)"
    unfolding all_less_3 sum3 entry_def sv_def by simp
qed

lemma cc_xx: "cross_covariance 2 dumbbell dumbbell = [2, 0, 0, 0, 0, 0, 0, 0, 0]"
  by (simp add: cross_covariance_def upt9 upt2 dumbbell_def)

lemma sv_xx: "singular_values [2, 0, 0, 0, 0, 0, 0, 0, 0] (2, 0, 0)"
proof (rule singular_valuesI)
  show "\<forall>k<3. 0 \<le> sv (2, 0, 0) k" by (simp add: sv_def)
  show "orthogonal3 [1, 0, 0, 0, 1, 0, 0, 0, 1]" by (rule orthogonal_identity)
  show "orthogonal3 [1, 0, 0, 0, 1, 0, 0, 0, 1]" by (rule orthogonal_identity)
  show "\<forall>a<3. \<forall>b<3. entry [2, 0, 0, 0, 0, 0, 0, 0, 0] a b =
          (\<Sum>k<3. entry [1, 0, 0, 0, 1, 0, 0, 0, 1] a k * sv (2, 0, 0) k * entry [1, 0, 0, 0, 1, 0, 0, 0, 1] b k)"
    unfolding all_less_3 sum3 entry_def sv_def by simp
qed

lemma dumbbell_y_facts: "length dumbbell_y = 3 * 2" "centered 2 dumbbell_y" "sqnorm 2 dumbbell_y = 2"
  by (simp_all add: dumbbell_y_def centered_def axis_sum_def sqnorm_def upt2)

lemma sum_list_upt_sum: "(\<Sum>k\<leftarrow>[0..<n]. f k) = (\<Sum>k\<in>{..<n}. (f k :: real))"
  by (simp add: interv_sum_list_conv_sum_set_nat atLeast0LessThan)

lemma sqnorm_sum: "sqnorm n u = (\<Sum>m\<in>{..<n}. \<Sum>a\<in>{..<3}. u ! (3 * m + a) * u ! (3 * m + a))"
  unfolding sqnorm_def sum_list_upt_sum by (simp add: numeral_3_eq_3 numeral_2_eq_2)

text \<open>With exact singular values the argument of the square root is not negative.\<close>

lemma exact_svd_nonneg:
  assumes "singular_values (cross_covariance n u v) s"
  shows "0 \<le> sqnorm n u + sqnorm n v - 2 * (fst s + fst (snd s) + snd (snd s))"
proof -
  from assms obtain P Q where P: "orthogonal3 P" and Q: "orthogonal3 Q"
    and A: "\<forall>a<3. \<forall>b<3. entry (cross_covariance n u v) a b = (\<Sum>k<3. entry P a k * sv s k * entry Q b k)"
    unfolding singular_values_def by blast
  have fin: "finite {..<3::nat}" by simp
  have f1: "\<And>a b. a \<in> {..<3} \<Longrightarrow> b \<in> {..<3} \<Longrightarrow>
      entry (cross_covariance n u v) a b = (\<Sum>k\<in>{..<3}. entry P a k * sv s k * entry Q b k)"
    using A by simp
  have f2: "\<And>a b. a \<in> {..<3} \<Longrightarrow> b \<in> {..<3} \<Longrightarrow>
      entry (cross_covariance n u v) a b = (\<Sum>m\<in>{..<n}. u ! (3 * m + a) * v ! (3 * m + b))"
    unfolding entry_def by (simp add: cross_covariance_nth sum_list_upt_sum)
  have "2 * (\<Sum>k\<in>{..<3}. sv s k) \<le> sqnorm n u + sqnorm n v"
    unfolding sqnorm_sum
    by (rule nuclear_le_norms[where A = "entry (cross_covariance n u v)" and P' = "entry P" and Q' = "entry Q"
          and x = "\<lambda>m a. u ! (3 * m + a)" and y = "\<lambda>m a. v ! (3 * m + a)",
          OF fin f1 f2 orthogonal3D(1)[OF P] orthogonal3D(1)[OF Q] orthogonal3D(2)[OF P] orthogonal3D(2)[OF Q]])
  then show ?thesis by (simp add: sum_sv)
qed

text \<open>
  Claim C7: for \<open>u\<close>, \<open>v\<close> of equal length \<open>3*n\<close>, \<open>calcRMSD(u, v) = calcRMSD(v, u)\<close>, the
  SVD routine being exact on the two cross-covariance matrices: these are transposes of each
  other, singular values of a matrix and of its transpose have the same sum, and \<open>E0\<close> is
  symmetric.
\<close>

theorem calcRMSD_symmetric:
  assumes "length u = 3 * n" and "length v = 3 * n"
    and "exact_svd dgesvj (cross_covariance n u v)"
    and "exact_svd dgesvj (cross_covariance n v u)"
  shows "calcRMSD dgesvj u v = calcRMSD dgesvj v u
     \<and> (\<forall>a<3. \<forall>b<3. entry (cross_covariance n v u) a b = entry (cross_covariance n u v) b a)"
proof -
  have i: "info (dgesvj (cross_covariance n u v)) = 0" "info (dgesvj (cross_covariance n v u)) = 0"
    using assms(3,4) by (simp_all add: exact_svd_def)
  have sum: "fst (S (dgesvj (cross_covariance n v u))) + fst (snd (S (dgesvj (cross_covariance n v u))))
       + snd (snd (S (dgesvj (cross_covariance n v u))))
     = fst (S (dgesvj (cross_covariance n u v))) + fst (snd (S (dgesvj (cross_covariance n u v))))
       + snd (snd (S (dgesvj (cross_covariance n u v))))"
  proof -
    have x: "singular_values (cross_covariance n u v) (S (dgesvj (cross_covariance n u v)))"
      and y: "singular_values (cross_covariance n v u) (S (dgesvj (cross_covariance n v u)))"
      using assms(3,4) by (simp_all add: exact_svd_def)
    from singular_values_transpose[OF x y cross_covariance_transpose] show ?thesis .
  qed
  have a: "3 * n \<le> length v" "3 * n \<le> length u" using assms(1,2) by simp_all
  have "calcRMSD dgesvj u v = calcRMSD dgesvj v u"
    unfolding calcRMSD_eq[OF assms(1) a(1)] calcRMSD_eq[OF assms(2) a(2)]
    by (simp only: i sum add.commute[of "sqnorm n v"] if_False refl)
  then show ?thesis using cross_covariance_transpose by blast
qed

theorem calcRMSD_symmetric_witness:
  "calcRMSD single_entry_svd dumbbell dumbbell_y = calcRMSD single_entry_svd dumbbell_y dumbbell
   \<and> calcRMSD single_entry_svd dumbbell dumbbell_y = Inr (Finite 0)
   \<and> cross_covariance 2 dumbbell dumbbell_y \<noteq> cross_covariance 2 dumbbell_y dumbbell"
proof -
  have e1: "exact_svd single_entry_svd (cross_covariance 2 dumbbell dumbbell_y)"
    unfolding exact_svd_def cc_xy using sv_xy by (simp add: single_entry_svd_def)
  have e2: "exact_svd single_entry_svd (cross_covariance 2 dumbbell_y dumbbell)"
    unfolding exact_svd_def cc_yx using sv_yx by (simp add: single_entry_svd_def)
  from calcRMSD_symmetric[OF dumbbell_facts(1) dumbbell_y_facts(1) e1 e2]
  have s: "calcRMSD single_entry_svd dumbbell dumbbell_y = calcRMSD single_entry_svd dumbbell_y dumbbell"
    by (rule conjunct1)
  have v: "calcRMSD single_entry_svd dumbbell dumbbell_y = Inr (Finite 0)"
    using calcRMSD_eq[of dumbbell 2 dumbbell_y single_entry_svd]
    by (simp add: dumbbell_facts dumbbell_y_facts cc_xy single_entry_svd_def ddiv_def)
  have d: "cross_covariance 2 dumbbell dumbbell_y \<noteq> cross_covariance 2 dumbbell_y dumbbell"
    unfolding cc_xy cc_yx by simp
  from s v d show ?thesis by blast
qed

subsection \<open>The formula of calcRMSD\<close>

text \<open>
  Claim C1, as stated: for centred \<open>u\<close>, \<open>v\<close> of equal length \<open>3*n\<close>, \<open>n > 0\<close>, \<open>calcRMSD\<close>
  returns \<open>sqrt(max(0, E0 - 2*(s0+s1+s2)) / n)\<close>, the argument of the square root being
  clamped at zero (max, not absolute value). The source takes the absolute value:
  \<^verbatim>\<open>sqrt(abs(E0-2.0*ss)/n)\<close>. The two differ as soon as the singular values stored by the
  routine sum up to more than \<open>E0/2\<close>. On the centred frame \<open>dumbbell\<close>, compared with
  itself, \<open>E0 = 4\<close> and the singular values are \<open>2, 0, 0\<close>; with the first one stored as
  \<open>2 + 10\<^sup>-\<^sup>9\<close> the clamp gives \<open>0\<close>, the source gives \<open>sqrt(10\<^sup>-\<^sup>9)\<close>.
\<close>

theorem calcRMSD_clamp_counterexample:
  "length dumbbell = 3 * 2 \<and> centered 2 dumbbell \<and>
   singular_values (cross_covariance 2 dumbbell dumbbell) (2, 0, 0) \<and>
   info (rounded_up_svd (cross_covariance 2 dumbbell dumbbell)) = 0 \<and>
   S (rounded_up_svd (cross_covariance 2 dumbbell dumbbell)) = (2 + 1 / 10 ^ 9, 0, 0) \<and>
   calcRMSD rounded_up_svd dumbbell dumbbell
     \<noteq> Inr (Finite (sqrt (max 0 (sqnorm 2 dumbbell + sqnorm 2 dumbbell
                                   - 2 * (2 + 1 / 10 ^ 9 + 0 + 0)) / real 2)))"
proof -
  have val: "calcRMSD rounded_up_svd dumbbell dumbbell = Inr (Finite (sqrt (1 / 10 ^ 9)))"
    using calcRMSD_eq[of dumbbell 2 dumbbell rounded_up_svd]
    by (simp add: dumbbell_facts rounded_up_svd_def ddiv_def)
  have nz: "sqrt (1 / 10 ^ 9) \<noteq> 0" by simp
  have clamp: "max 0 (sqnorm 2 dumbbell + sqnorm 2 dumbbell - 2 * (2 + 1 / 10 ^ 9 + 0 + 0)) = 0"
    by (simp add: dumbbell_facts)
  have "calcRMSD rounded_up_svd dumbbell dumbbell
     \<noteq> Inr (Finite (sqrt (max 0 (sqnorm 2 dumbbell + sqnorm 2 dumbbell
                                   - 2 * (2 + 1 / 10 ^ 9 + 0 + 0)) / real 2)))"
    unfolding val clamp using nz by simp
  moreover have "info (rounded_up_svd (cross_covariance 2 dumbbell dumbbell)) = 0"
    "S (rounded_up_svd (cross_covariance 2 dumbbell dumbbell)) = (2 + 1 / 10 ^ 9, 0, 0)"
    by (simp_all add: rounded_up_svd_def)
  moreover have "singular_values (cross_covariance 2 dumbbell dumbbell) (2, 0, 0)"
    unfolding cc_xx by (rule sv_xx)
  ultimately show ?thesis
    using dumbbell_facts by blast
qed

text \<open>
  Claim C1, amended: for \<open>u\<close>, \<open>v\<close> of equal length \<open>3*n\<close>, \<open>n > 0\<close>, and singular values
  \<open>s0, s1, s2\<close> stored by the routine with \<open>info = 0\<close> for the cross-covariance matrix
  \<open>R[a][b] = \<Sum>k. u\<^sub>k[a] * v\<^sub>k[b]\<close>, \<open>calcRMSD\<close> returns
  \<open>sqrt(|E0 - 2*(s0+s1+s2)| / n)\<close>, \<open>E0\<close> being the sum of the squared norms of both point
  sets: the absolute value, which agrees with the clamp \<open>max(0, \<dots>)\<close> whenever
  \<open>E0 - 2*(s0+s1+s2)\<close> is not negative, in particular whenever the stored values are
  exact singular values of \<open>R\<close>.
\<close>

theorem calcRMSD_abs_formula:
  assumes "length u = 3 * n" "length v = 3 * n" "0 < n"
    and "info (dgesvj (cross_covariance n u v)) = 0"
    and "S (dgesvj (cross_covariance n u v)) = (s0, s1, s2)"
  shows "calcRMSD dgesvj u v =
           Inr (Finite (sqrt (\<bar>sqnorm n u + sqnorm n v - 2 * (s0 + s1 + s2)\<bar> / real n)))
         \<and> (\<forall>a<3. \<forall>b<3. cross_covariance n u v ! (a + 3 * b)
                = (\<Sum>k\<leftarrow>[0..<n]. u ! (3 * k + a) * v ! (3 * k + b)))
         \<and> (0 \<le> sqnorm n u + sqnorm n v - 2 * (s0 + s1 + s2) \<longrightarrow>
              calcRMSD dgesvj u v =
                Inr (Finite (sqrt (max 0 (sqnorm n u + sqnorm n v - 2 * (s0 + s1 + s2)) / real n))))
         \<and> (singular_values (cross_covariance n u v) (s0, s1, s2) \<longrightarrow>
              calcRMSD dgesvj u v =
                Inr (Finite (sqrt (max 0 (sqnorm n u + sqnorm n v - 2 * (s0 + s1 + s2)) / real n))))"
proof -
  have val: "calcRMSD dgesvj u v =
           Inr (Finite (sqrt (\<bar>sqnorm n u + sqnorm n v - 2 * (s0 + s1 + s2)\<bar> / real n)))"
  proof -
    have "\<not> \<bar>sqnorm n u + sqnorm n v - 2 * (s0 + s1 + s2)\<bar> / real n < 0"
      by (simp add: not_less)
    then show ?thesis
      using assms calcRMSD_eq[of u n v dgesvj] by (simp add: ddiv_def)
  qed
  have cov: "\<forall>a<3. \<forall>b<3. cross_covariance n u v ! (a + 3 * b)
                = (\<Sum>k\<leftarrow>[0..<n]. u ! (3 * k + a) * v ! (3 * k + b))"
    using cross_covariance_nth by blast
  have eq: "0 \<le> sqnorm n u + sqnorm n v - 2 * (s0 + s1 + s2) \<longrightarrow>
      \<bar>sqnorm n u + sqnorm n v - 2 * (s0 + s1 + s2)\<bar>
        = max 0 (sqnorm n u + sqnorm n v - 2 * (s0 + s1 + s2))"
    by linarith
  have ex: "singular_values (cross_covariance n u v) (s0, s1, s2) \<longrightarrow>
      0 \<le> sqnorm n u + sqnorm n v - 2 * (s0 + s1 + s2)"
    using exact_svd_nonneg[of n u v "(s0, s1, s2)"] by simp
  from val cov eq ex show ?thesis by presburger
qed

theorem calcRMSD_abs_formula_witness:
  "calcRMSD rounded_up_svd dumbbell dumbbell = Inr (Finite (sqrt (1 / 10 ^ 9)))
   \<and> calcRMSD single_entry_svd dumbbell dumbbell_y = Inr (Finite (sqrt (max 0 (2 + 2 - 2 * (2 + 0 + 0)) / real 2)))"
proof -
  have "info (rounded_up_svd (cross_covariance 2 dumbbell dumbbell)) = 0"
    "S (rounded_up_svd (cross_covariance 2 dumbbell dumbbell)) = (2 + 1 / 10 ^ 9, 0, 0)"
    by (simp_all add: rounded_up_svd_def)
  from calcRMSD_abs_formula[of dumbbell 2 dumbbell rounded_up_svd,
      OF dumbbell_facts(1) dumbbell_facts(1) _ this]
  have a: "calcRMSD rounded_up_svd dumbbell dumbbell = Inr (Finite (sqrt (1 / 10 ^ 9)))"
    by (simp add: dumbbell_facts)
  have i: "info (single_entry_svd (cross_covariance 2 dumbbell dumbbell_y)) = 0"
    "S (single_entry_svd (cross_covariance 2 dumbbell dumbbell_y)) = (2, 0, 0)"
    by (simp_all add: single_entry_svd_def cc_xy)
  have e: "singular_values (cross_covariance 2 dumbbell dumbbell_y) (2, 0, 0)"
    unfolding cc_xy by (rule sv_xy)
  have n: "0 < (2::nat)" by simp
  from calcRMSD_abs_formula[of dumbbell 2 dumbbell_y single_entry_svd,
      OF dumbbell_facts(1) dumbbell_y_facts(1) n i] e
  have b: "calcRMSD single_entry_svd dumbbell dumbbell_y
      = Inr (Finite (sqrt (max 0 (sqnorm 2 dumbbell + sqnorm 2 dumbbell_y - 2 * (2 + 0 + 0)) / real 2)))"
    by blast
  from a b show ?thesis by (simp only: dumbbell_facts dumbbell_y_facts)
qed

end
